theory Spec2Isabelle
  imports Complex_Main "HOL-Library.AList" "HOL-Library.Log_Nat"
begin

section \<open>Exceptions\<close>

text \<open>
  A Python call that may raise returns \<open>py_error + 'a\<close>, \<open>Inl\<close> carrying the exception.
  \<open>ExternalError\<close> stands for whatever an external collaborator (the vector index, the
  ephemeris, the geocoder, the language model) raises; its payload tells two such
  failures apart. \<open>and_then\<close> sequences two statements: an exception of the first skips
  the second.
\<close>

datatype py_error =
    ValueError
  | RuntimeError
  | ZeroDivisionError
  | IndexError
  | AttributeError
  | ExternalError string

definition and_then :: "py_error + 'a \<Rightarrow> ('a \<Rightarrow> py_error + 'b) \<Rightarrow> py_error + 'b" where
  "and_then r f = (case r of Inl e \<Rightarrow> Inl e | Inr v \<Rightarrow> f v)"

section \<open>Chart model (src/calculation/house\_system.py)\<close>

text \<open>
  A chart is a Python \<open>Dict[str, int]\<close>: planet name to house number. A dict keeps
  insertion order and has one entry per key, so it is modelled as an association list;
  \<open>distinct (map fst chart)\<close> is the dict's own invariant. \<open>planet in chart\<close> and
  \<open>chart[planet]\<close> are both \<open>map_of chart planet\<close>.
\<close>

type_synonym chart = "(string \<times> int) list"

definition required_planets :: "string list" where
  "required_planets =
     [''Sun'', ''Moon'', ''Mars'', ''Mercury'',
      ''Jupiter'', ''Venus'', ''Saturn'', ''Rahu'', ''Ketu'']"

text \<open>The \<open>for planet in required_planets\<close> loop of \<open>validate_chart\<close>, with its two early returns.\<close>

fun validate_loop :: "chart \<Rightarrow> string list \<Rightarrow> bool" where
  "validate_loop chart [] = True"
| "validate_loop chart (planet # rest) =
     (case map_of chart planet of
        None \<Rightarrow> False
      | Some house \<Rightarrow>
          if \<not> (1 \<le> house \<and> house \<le> 12) then False
          else validate_loop chart rest)"

definition validate_chart :: "chart \<Rightarrow> bool" where
  "validate_chart chart = validate_loop chart required_planets"

text \<open>\<open>[planet for planet, h in chart.items() if h == house]\<close>\<close>

definition get_planets_in_house :: "chart \<Rightarrow> int \<Rightarrow> string list" where
  "get_planets_in_house chart house = [planet. (planet, h) \<leftarrow> chart, h = house]"

text \<open>
  The contract of section 4.3 in the spec's words: all nine required planets are keys and
  every house value of the chart is within 1..12.
\<close>

definition spec_validate :: "chart \<Rightarrow> bool" where
  "spec_validate chart \<longleftrightarrow>
     list_all (\<lambda>p. p \<in> fst ` set chart) required_planets \<and>
     list_all (\<lambda>(p, h). 1 \<le> h \<and> h \<le> 12) chart"

section \<open>Python floats\<close>

text \<open>
  A Python \<open>float\<close> is an IEEE 754 binary64. \<open>Finite r\<close> is the finite double of value
  \<open>r\<close> (the two zeros have the same value and are not told apart); \<open>NonFinite\<close> is an
  infinity or a NaN. Every arithmetic operation computes the exact result and rounds it
  to the nearest double, ties to the even significand (\<open>fl\<close>); a rounded result of
  magnitude \<open>2 ^ 1024\<close> or more overflows to an infinity.

  Only the operations the calculator uses are modelled: \<open>+\<close> and \<open>-\<close> on two floats, and
  \<open>%\<close> and \<open>/\<close> by a finite non-float constant. Under these a \<open>NonFinite\<close> operand always
  gives a \<open>NonFinite\<close> result (\<open>inf - inf\<close> and \<open>inf % 360\<close> are NaN, \<open>inf / 30\<close> is
  \<open>inf\<close>), which is why infinities and NaN need not be told apart.
\<close>

datatype pyfloat = Finite real | NonFinite

definition round_half_even :: "real \<Rightarrow> int" where
  "round_half_even x =
     (let f = \<lfloor>x\<rfloor>; d = x - of_int f
      in if d < 1 / 2 then f
         else if 1 / 2 < d then f + 1
         else if even f then f else f + 1)"

text \<open>
  The binary exponent \<open>e\<close> of a non-zero value, \<open>2 ^ e \<le> \<bar>x\<bar> < 2 ^ (e + 1)\<close>, read off the
  bit length of the integer part of \<open>\<bar>x\<bar>\<close>, or of its reciprocal when \<open>\<bar>x\<bar> < 1\<close>.
\<close>

definition float_exponent :: "real \<Rightarrow> int" where
  "float_exponent x =
     (if 1 \<le> \<bar>x\<bar> then bitlen \<lfloor>\<bar>x\<bar>\<rfloor> - 1
      else - bitlen (\<lceil>1 / \<bar>x\<bar>\<rceil> - 1))"

text \<open>
  Rounding to 53 significant bits; below \<open>2 ^ - 1022\<close> the spacing stays \<open>2 ^ - 1074\<close>
  (subnormal numbers).
\<close>

definition fl :: "real \<Rightarrow> real" where
  "fl x =
     (if x = 0 then 0
      else let q = max (float_exponent x) (- 1022) - 52
           in of_int (round_half_even (x / 2 powi q)) * 2 powi q)"

definition to_float :: "real \<Rightarrow> pyfloat" where
  "to_float x = (let r = fl x in if 2 ^ 1024 \<le> \<bar>r\<bar> then NonFinite else Finite r)"

definition is_binary64 :: "real \<Rightarrow> bool" where
  "is_binary64 x \<longleftrightarrow> to_float x = Finite x"

fun float_add :: "pyfloat \<Rightarrow> pyfloat \<Rightarrow> pyfloat" where
  "float_add (Finite x) (Finite y) = to_float (x + y)"
| "float_add _ _ = NonFinite"

fun float_sub :: "pyfloat \<Rightarrow> pyfloat \<Rightarrow> pyfloat" where
  "float_sub (Finite x) (Finite y) = to_float (x - y)"
| "float_sub _ _ = NonFinite"

text \<open>\<open>int(x)\<close> and C's \<open>trunc\<close>: rounding toward zero.\<close>

definition trunc :: "real \<Rightarrow> int" where
  "trunc r = (if 0 \<le> r then \<lfloor>r\<rfloor> else \<lceil>r\<rceil>)"

text \<open>C's \<open>fmod\<close> on finite operands is exact: the result has the sign of \<open>x\<close>.\<close>

definition fmod :: "real \<Rightarrow> real \<Rightarrow> real" where
  "fmod x y = x - y * of_int (trunc (x / y))"

text \<open>
  \<open>x % w\<close> for a float \<open>x\<close> and a finite \<open>w\<close>, as CPython's \<open>float_rem\<close> computes it:
  \<^verbatim>\<open>
    if (wx == 0.0) raise ZeroDivisionError
    mod = fmod(vx, wx);
    if (mod) { if ((wx < 0) != (mod < 0)) mod += wx; }
    else mod = copysign(0.0, wx);
  \<close>
  The adjustment \<open>mod += wx\<close> is a floating-point addition and is rounded.
\<close>

fun float_rem :: "pyfloat \<Rightarrow> real \<Rightarrow> py_error + pyfloat" where
  "float_rem (Finite vx) wx =
     (if wx = 0 then Inl ZeroDivisionError
      else let rem = fmod vx wx
           in if rem \<noteq> 0
              then (if (wx < 0) \<noteq> (rem < 0) then Inr (to_float (rem + wx))
                    else Inr (Finite rem))
              else Inr (Finite 0))"
| "float_rem NonFinite wx = (if wx = 0 then Inl ZeroDivisionError else Inr NonFinite)"

text \<open>\<open>x / w\<close> for a float \<open>x\<close> and a finite \<open>w\<close>.\<close>

fun float_div :: "pyfloat \<Rightarrow> real \<Rightarrow> py_error + pyfloat" where
  "float_div (Finite x) w = (if w = 0 then Inl ZeroDivisionError else Inr (to_float (x / w)))"
| "float_div NonFinite w = (if w = 0 then Inl ZeroDivisionError else Inr NonFinite)"

text \<open>
  \<open>int(x)\<close> raises on a NaN (\<open>ValueError\<close>) and on an infinity (\<open>OverflowError\<close>). In
  \<open>degree_to_house\<close> its argument went through \<open>% 360\<close>, which turns an infinity into a
  NaN, so the exception there is \<open>ValueError\<close>.
\<close>

fun py_int :: "pyfloat \<Rightarrow> py_error + int" where
  "py_int (Finite r) = Inr (trunc r)"
| "py_int NonFinite = Inl ValueError"

definition int_to_float :: "int \<Rightarrow> pyfloat" where
  "int_to_float k = to_float (of_int k)"

section \<open>Horoscope calculator (src/calculation/horoscope.py)\<close>

text \<open>
  \<^verbatim>\<open>
    distance = (planet_degree - ascendant_degree) % 360
    house = int(distance / 30) + 1
  \<close>
\<close>

definition degree_to_house :: "pyfloat \<Rightarrow> pyfloat \<Rightarrow> py_error + int" where
  "degree_to_house planet_degree ascendant_degree =
     and_then (float_rem (float_sub planet_degree ascendant_degree) 360) (\<lambda>distance.
     and_then (float_div distance 30) (\<lambda>quotient.
     and_then (py_int quotient) (\<lambda>house0.
     Inr (house0 + 1))))"

text \<open>
  The Swiss Ephemeris library is external. Its three entry points are parameters of the
  model; each may raise. \<open>swe_calc_ut\<close> returns the position tuple \<open>result[0]\<close>, whose first
  component is the longitude; \<open>swe_houses\<close> returns \<open>(cusps, ascmc)\<close>.
\<close>

datatype swe_body = SUN | MOON | MARS | MERCURY | JUPITER | VENUS | SATURN | MEAN_NODE

record swisseph =
  swe_julday :: "int \<Rightarrow> int \<Rightarrow> int \<Rightarrow> pyfloat \<Rightarrow> py_error + pyfloat"
  swe_houses :: "pyfloat \<Rightarrow> pyfloat \<Rightarrow> pyfloat \<Rightarrow> py_error + (pyfloat list \<times> pyfloat list)"
  swe_calc_ut :: "pyfloat \<Rightarrow> swe_body \<Rightarrow> py_error + pyfloat list"

text \<open>The class attribute \<open>PLANETS\<close>, in insertion order; Rahu and Ketu share the mean node.\<close>

definition calculator_PLANETS :: "(string \<times> swe_body) list" where
  "calculator_PLANETS =
     [(''Sun'', SUN), (''Moon'', MOON), (''Mars'', MARS), (''Mercury'', MERCURY),
      (''Jupiter'', JUPITER), (''Venus'', VENUS), (''Saturn'', SATURN),
      (''Rahu'', MEAN_NODE), (''Ketu'', MEAN_NODE)]"

text \<open>\<open>xs[0]\<close>\<close>

definition first_item :: "'a list \<Rightarrow> py_error + 'a" where
  "first_item xs = (case xs of [] \<Rightarrow> Inl IndexError | x # _ \<Rightarrow> Inr x)"

text \<open>\<open>utc_hour = hour - timezone_offset; jd = swe.julday(year, month, day, utc_hour + minute / 60.0)\<close>\<close>

definition calculate_julian_day ::
  "swisseph \<Rightarrow> int \<Rightarrow> int \<Rightarrow> int \<Rightarrow> int \<Rightarrow> int \<Rightarrow> pyfloat \<Rightarrow> py_error + pyfloat" where
  "calculate_julian_day swe year month day hour minute timezone_offset =
     (let utc_hour = float_sub (int_to_float hour) timezone_offset
      in and_then (float_div (int_to_float minute) 60) (\<lambda>m.
         swe_julday swe year month day (float_add utc_hour m)))"

definition calculate_ascendant ::
  "swisseph \<Rightarrow> pyfloat \<Rightarrow> pyfloat \<Rightarrow> pyfloat \<Rightarrow> py_error + pyfloat" where
  "calculate_ascendant swe jd latitude longitude =
     and_then (swe_houses swe jd latitude longitude) (\<lambda>(cusps, ascmc). first_item ascmc)"

definition calculate_planet_position :: "swisseph \<Rightarrow> swe_body \<Rightarrow> pyfloat \<Rightarrow> py_error + pyfloat" where
  "calculate_planet_position swe planet_id jd =
     and_then (swe_calc_ut swe jd planet_id) first_item"

text \<open>
  The body of the loop of \<open>calculate_chart\<close>: the house of one entry of \<open>PLANETS\<close>.
  \<^verbatim>\<open>
    if planet_name == 'Ketu':
        rahu_degree = self.calculate_planet_position(planet_id, jd)
        ketu_degree = (rahu_degree + 180) % 360
        house = self.degree_to_house(ketu_degree, ascendant)
    else:
        planet_degree = self.calculate_planet_position(planet_id, jd)
        house = self.degree_to_house(planet_degree, ascendant)
  \<close>
\<close>

definition planet_house ::
  "swisseph \<Rightarrow> pyfloat \<Rightarrow> pyfloat \<Rightarrow> string \<Rightarrow> swe_body \<Rightarrow> py_error + int" where
  "planet_house swe jd ascendant planet_name planet_id =
     (if planet_name = ''Ketu''
      then and_then (calculate_planet_position swe planet_id jd) (\<lambda>rahu_degree.
           and_then (float_rem (float_add rahu_degree (int_to_float 180)) 360) (\<lambda>ketu_degree.
           degree_to_house ketu_degree ascendant))
      else and_then (calculate_planet_position swe planet_id jd) (\<lambda>planet_degree.
           degree_to_house planet_degree ascendant))"

text \<open>
  The loop over \<open>PLANETS.items()\<close>; \<open>chart[planet_name] = house\<close> is \<open>AList.update\<close>, which
  appends a new key and overwrites an old one in place.
\<close>

fun chart_loop ::
  "swisseph \<Rightarrow> pyfloat \<Rightarrow> pyfloat \<Rightarrow> (string \<times> swe_body) list \<Rightarrow> chart \<Rightarrow> py_error + chart" where
  "chart_loop swe jd ascendant [] chart = Inr chart"
| "chart_loop swe jd ascendant ((planet_name, planet_id) # rest) chart =
     and_then (planet_house swe jd ascendant planet_name planet_id)
       (\<lambda>house. chart_loop swe jd ascendant rest (AList.update planet_name house chart))"

text \<open>
  \<open>datetime.strptime\<close> is a parameter: it gives year, month, day, hour and minute, or
  fails with \<open>ValueError\<close> (\<open>None\<close>).
\<close>

type_synonym strptime = "string \<Rightarrow> string \<Rightarrow> (int \<times> int \<times> int \<times> int \<times> int) option"

definition calculate_chart ::
  "strptime \<Rightarrow> swisseph \<Rightarrow> string \<Rightarrow> string \<Rightarrow> pyfloat \<Rightarrow> pyfloat \<Rightarrow> pyfloat \<Rightarrow> py_error + chart" where
  "calculate_chart parse swe date time latitude longitude timezone_offset =
     (case parse date time of
        None \<Rightarrow> Inl ValueError
      | Some (year, month, day, hour, minute) \<Rightarrow>
          and_then (calculate_julian_day swe year month day hour minute timezone_offset) (\<lambda>jd.
          and_then (calculate_ascendant swe jd latitude longitude) (\<lambda>ascendant.
          chart_loop swe jd ascendant calculator_PLANETS [])))"

text \<open>
  A stub ephemeris and date parser for the examples: every body, the mean node included,
  stands at longitude 200, the ascendant at 50.
\<close>

definition example_swe :: swisseph where
  "example_swe =
     \<lparr>swe_julday = (\<lambda>year month day hour. Inr (Finite 2453021)),
      swe_houses = (\<lambda>jd latitude longitude. Inr ([], [Finite 50])),
      swe_calc_ut = (\<lambda>jd body. Inr [Finite 200])\<rparr>"

definition example_strptime :: strptime where
  "example_strptime date time = Some (2004, 1, 16, 10, 30)"

section \<open>Rule store client (src/retrieval/pinecone\_client.py)\<close>

text \<open>
  The Pinecone index is an external service; its two calls are parameters of the model.
  \<open>ix_query planet house top_k\<close> is \<open>index.query\<close> with the zero vector and the filter
  \<open>{"$and": [{"planet": {"$eq": planet}}, {"house": {"$eq": house}}]}\<close>; it returns the
  matches or raises. \<open>ix_upsert batch\<close> is \<open>index.upsert(vectors=batch)\<close>: \<open>None\<close> when
  the call returns, the exception otherwise. A match carries an id, a score and its
  metadata, which is \<open>None\<close> when the stored vector has none.
\<close>

datatype meta_value = MetaStr string | MetaInt int

type_synonym metadata = "(string \<times> meta_value) list"

record match =
  match_id :: string
  match_score :: pyfloat
  match_metadata :: "metadata option"

record vector =
  vec_id :: string
  vec_values :: "pyfloat list"
  vec_metadata :: metadata

record pinecone_index =
  ix_query :: "string \<Rightarrow> int \<Rightarrow> int \<Rightarrow> py_error + match list"
  ix_upsert :: "vector list \<Rightarrow> py_error option"

record pinecone_client =
  index_name :: string
  index :: "pinecone_index option"

text \<open>The dictionaries that \<open>query_by_chart\<close> appends to \<open>all_results\<close>.\<close>

record retrieved_rule =
  rule_planet :: string
  rule_house :: int
  rule_id :: string
  rule_score :: pyfloat
  rule_content :: meta_value
  rule_heading :: meta_value
  rule_metadata :: metadata

text \<open>\<open>metadata.get(key, '')\<close>\<close>

definition metadata_get :: "metadata \<Rightarrow> string \<Rightarrow> meta_value" where
  "metadata_get md key = (case map_of md key of None \<Rightarrow> MetaStr [] | Some v \<Rightarrow> v)"

text \<open>
  The inner loop \<open>for match in query_result.matches\<close>. It runs inside the \<open>try\<close>: a match
  without metadata raises \<open>AttributeError\<close> on \<open>.get\<close>, which ends the loop and keeps what was
  appended before.
\<close>

fun append_matches ::
  "string \<Rightarrow> int \<Rightarrow> match list \<Rightarrow> retrieved_rule list \<Rightarrow> py_error option \<times> retrieved_rule list" where
  "append_matches planet house [] all_results = (None, all_results)"
| "append_matches planet house (m # ms) all_results =
     (case match_metadata m of
        None \<Rightarrow> (Some AttributeError, all_results)
      | Some md \<Rightarrow>
          append_matches planet house ms
            (all_results @
             [\<lparr>rule_planet = planet, rule_house = house, rule_id = match_id m,
               rule_score = match_score m, rule_content = metadata_get md ''content'',
               rule_heading = metadata_get md ''heading'', rule_metadata = md\<rparr>]))"

text \<open>
  The loop \<open>for planet, house in chart.items()\<close> with its \<open>try\<close>/\<open>except Exception\<close>. The
  printed warnings are collected as (planet, house, exception) in the order printed.
\<close>

type_synonym warning = "string \<times> int \<times> py_error"

fun query_loop ::
  "pinecone_index \<Rightarrow> int \<Rightarrow> chart \<Rightarrow> retrieved_rule list \<Rightarrow> warning list \<Rightarrow>
     retrieved_rule list \<times> warning list" where
  "query_loop idx top_k [] all_results warnings = (all_results, warnings)"
| "query_loop idx top_k ((planet, house) # rest) all_results warnings =
     (case ix_query idx planet house top_k of
        Inl e \<Rightarrow> query_loop idx top_k rest all_results (warnings @ [(planet, house, e)])
      | Inr matches \<Rightarrow>
          (case append_matches planet house matches all_results of
             (None, results) \<Rightarrow> query_loop idx top_k rest results warnings
           | (Some e, results) \<Rightarrow>
               query_loop idx top_k rest results (warnings @ [(planet, house, e)])))"

text \<open>
  \<open>query_by_chart\<close> returns \<open>all_results\<close>; the model returns the warnings printed on the way
  with it. \<open>if not self.index: raise RuntimeError\<close> comes before the loop.
\<close>

definition query_by_chart ::
  "pinecone_client \<Rightarrow> chart \<Rightarrow> int \<Rightarrow> py_error + (retrieved_rule list \<times> warning list)" where
  "query_by_chart self chart top_k =
     (case index self of
        None \<Rightarrow> Inl RuntimeError
      | Some idx \<Rightarrow> Inr (query_loop idx top_k chart [] []))"

text \<open>
  What one pair of the chart contributes to the result, stated apart from the loop:
  nothing when its lookup raises; otherwise one rule per match, in the order the index
  returned them, up to the first match that has no metadata.
\<close>

definition pair_rules :: "pinecone_index \<Rightarrow> int \<Rightarrow> string \<times> int \<Rightarrow> retrieved_rule list" where
  "pair_rules idx top_k pair =
     (case pair of (planet, house) \<Rightarrow>
        (case ix_query idx planet house top_k of
           Inl e \<Rightarrow> []
         | Inr matches \<Rightarrow>
             map (\<lambda>m. \<lparr>rule_planet = planet, rule_house = house, rule_id = match_id m,
                        rule_score = match_score m,
                        rule_content = metadata_get (the (match_metadata m)) ''content'',
                        rule_heading = metadata_get (the (match_metadata m)) ''heading'',
                        rule_metadata = the (match_metadata m)\<rparr>)
               (takeWhile (\<lambda>m. match_metadata m \<noteq> None) matches)))"

text \<open>
  An index for the examples: the lookup of Sun in house 1 fails, the lookup of Moon in
  house 3 returns one stored rule, every other lookup returns no match.
\<close>

definition example_index :: pinecone_index where
  "example_index =
     \<lparr>ix_query = (\<lambda>planet house top_k.
        if planet = ''Sun'' \<and> house = 1 then Inl (ExternalError ''timeout'')
        else if planet = ''Moon'' \<and> house = 3
        then Inr [\<lparr>match_id = ''moon_house_3'', match_score = Finite 0,
                   match_metadata = Some [(''content'', MetaStr ''Moon in 3rd House B''),
                                          (''heading'', MetaStr ''Moon in 3rd House'')]\<rparr>]
        else Inr []),
      ix_upsert = (\<lambda>batch. None)\<rparr>"

section \<open>Geocoding (src/calculation/geocoding.py) and chart by place\<close>

text \<open>
  \<open>geolocator.geocode\<close> is external: it returns a location's coordinates, \<open>None\<close> when the
  place is unknown, or raises. \<open>Geocoder.get_coordinates\<close> asks with the country appended,
  then without it, and turns every exception into \<open>RuntimeError\<close>.
\<close>

type_synonym geolocator = "string \<Rightarrow> py_error + (pyfloat \<times> pyfloat) option"

definition get_coordinates ::
  "geolocator \<Rightarrow> string \<Rightarrow> string \<Rightarrow> py_error + (pyfloat \<times> pyfloat) option" where
  "get_coordinates geocode place_name country =
     (case geocode (place_name @ '', '' @ country) of
        Inl e \<Rightarrow> Inl RuntimeError
      | Inr (Some location) \<Rightarrow> Inr (Some location)
      | Inr None \<Rightarrow>
          (case geocode place_name of
             Inl e \<Rightarrow> Inl RuntimeError
           | Inr (Some location) \<Rightarrow> Inr (Some location)
           | Inr None \<Rightarrow> Inr None))"

text \<open>\<open>calculate_chart_by_place\<close>: \<open>if not coords: raise RuntimeError(...)\<close>.\<close>

definition calculate_chart_by_place ::
  "geolocator \<Rightarrow> strptime \<Rightarrow> swisseph \<Rightarrow> string \<Rightarrow> string \<Rightarrow> string \<Rightarrow> pyfloat \<Rightarrow> py_error + chart" where
  "calculate_chart_by_place geocode parse swe date time place_name timezone_offset =
     (case get_coordinates geocode place_name ''India'' of
        Inl e \<Rightarrow> Inl e
      | Inr None \<Rightarrow> Inl RuntimeError
      | Inr (Some (latitude, longitude)) \<Rightarrow>
          calculate_chart parse swe date time latitude longitude timezone_offset)"

section \<open>Birth-data gate (src/app.py)\<close>

record birth_data =
  bd_date :: string
  bd_time :: string
  bd_place :: string
  bd_timezone :: pyfloat

text \<open>
  The language model's answer to the extraction prompt, after \<open>json.loads\<close>: either the
  literal \<open>non_astrology\<close> or an object with the three fields, each possibly \<open>null\<close>. A
  failed call or an unparsable answer is an exception.
\<close>

datatype llm_reply = ReplyNonAstrology | ReplyFields "string option" "string option" "string option"

datatype extraction =
    Complete birth_data
  | Incomplete "string list"
  | NonAstrology string

text \<open>\<open>not data.get(field)\<close>: the field is absent, \<open>null\<close> or empty.\<close>

definition field_missing :: "string option \<Rightarrow> bool" where
  "field_missing v \<longleftrightarrow> v = None \<or> v = Some []"

definition extract_birth_data_with_llm ::
  "(string \<Rightarrow> py_error + llm_reply) \<Rightarrow> string \<Rightarrow> extraction" where
  "extract_birth_data_with_llm llm message =
     (case llm message of
        Inl e \<Rightarrow> Incomplete [''birth date'', ''birth time'', ''birth place'']
      | Inr ReplyNonAstrology \<Rightarrow>
          NonAstrology
            ''I'm an astrology assistant. To get started, please provide your birth date, time, and place.''
      | Inr (ReplyFields date time place) \<Rightarrow>
          (let missing =
                 (if field_missing date then [''birth date''] else []) @
                 (if field_missing time then [''birth time''] else []) @
                 (if field_missing place then [''birth place''] else [])
           in if missing \<noteq> [] then Incomplete missing
              else Complete \<lparr>bd_date = the date, bd_time = the time, bd_place = the place,
                             bd_timezone = Finite (11 / 2)\<rparr>))"

text \<open>
  The collaborators of \<open>process_user_message\<close>. The summary and answer generators and
  the relevance check call the rule store and the language model; they are parameters,
  each returning its value or the exception it raises.
\<close>

record app_env =
  env_llm_extract :: "string \<Rightarrow> py_error + llm_reply"
  env_geocode :: geolocator
  env_strptime :: strptime
  env_swe :: swisseph
  env_generate_initial_summary :: "chart \<Rightarrow> py_error + string"
  env_validate_astrology_question :: "string \<Rightarrow> bool"
  env_answer_question :: "string \<Rightarrow> chart option \<Rightarrow> py_error + string"

definition generate_chart :: "app_env \<Rightarrow> birth_data \<Rightarrow> py_error + chart" where
  "generate_chart env data =
     calculate_chart_by_place (env_geocode env) (env_strptime env) (env_swe env)
       (bd_date data) (bd_time data) (bd_place data) (bd_timezone data)"

text \<open>The fields of \<open>st.session_state\<close> that \<open>process_user_message\<close> reads or writes.\<close>

record session_state =
  ss_chart :: "chart option"
  ss_birth_data :: "birth_data option"
  ss_initial_summary_shown :: bool

text \<open>The reply shown to the user, by kind (the source formats each as a string).\<close>

datatype reply =
    ChartReady string string
  | ChartFailed py_error
  | NeedMore "string list"
  | Plain string
  | Refusal
  | Answer string
  | AnswerFailed py_error

text \<open>
  \<^verbatim>\<open>
    if not st.session_state.birth_data:
        birth_data_result = extract_birth_data_with_llm(message)
        if birth_data_result['status'] == 'complete':
            st.session_state.birth_data = birth_data_result['data']
            try:
                chart = generate_chart(birth_data_result['data'])
                st.session_state.chart = chart
                summary = generate_initial_summary(chart)
                st.session_state.initial_summary_shown = True
                return ...
            except Exception as e:
                st.session_state.birth_data = None  # Reset on error
                return ...
  \<close>
\<close>

definition process_user_message ::
  "app_env \<Rightarrow> session_state \<Rightarrow> string \<Rightarrow> reply \<times> session_state" where
  "process_user_message env st message =
     (if ss_birth_data st = None then
        (case extract_birth_data_with_llm (env_llm_extract env) message of
           Complete data \<Rightarrow>
             (let st1 = st\<lparr>ss_birth_data := Some data\<rparr>
              in case generate_chart env data of
                   Inl e \<Rightarrow> (ChartFailed e, st1\<lparr>ss_birth_data := None\<rparr>)
                 | Inr chart \<Rightarrow>
                     (let st2 = st1\<lparr>ss_chart := Some chart\<rparr>
                      in case env_generate_initial_summary env chart of
                           Inl e \<Rightarrow> (ChartFailed e, st2\<lparr>ss_birth_data := None\<rparr>)
                         | Inr summary \<Rightarrow>
                             (ChartReady (bd_place data) summary,
                              st2\<lparr>ss_initial_summary_shown := True\<rparr>)))
         | Incomplete missing \<Rightarrow> (NeedMore missing, st)
         | NonAstrology msg \<Rightarrow> (Plain msg, st))
      else if \<not> env_validate_astrology_question env message then (Refusal, st)
      else (case env_answer_question env message (ss_chart st) of
              Inl e \<Rightarrow> (AnswerFailed e, st)
            | Inr answer \<Rightarrow> (Answer answer, st)))"

text \<open>
  Collaborators for the examples: the model extracts all three fields, and the geocoder
  knows no place.
\<close>

definition example_env :: app_env where
  "example_env =
     \<lparr>env_llm_extract =
        (\<lambda>message. Inr (ReplyFields (Some ''2004-01-16'') (Some ''10:30'') (Some ''Atlantis''))),
      env_geocode = (\<lambda>query. Inr None),
      env_strptime = example_strptime,
      env_swe = example_swe,
      env_generate_initial_summary = (\<lambda>chart. Inr ''summary''),
      env_validate_astrology_question = (\<lambda>question. True),
      env_answer_question = (\<lambda>question chart. Inr ''answer'')\<rparr>"

section \<open>Heading matcher (src/ingestion/regex\_parser.py)\<close>

text \<open>
  A document is a Python \<open>str\<close>, modelled as a \<open>string\<close> whose characters are the code
  points below 256; offsets and lengths count characters, as Python's do. Within that
  range \<open>\s\<close> and \<open>str.strip()\<close> take the characters of \<open>is_space\<close> for white space (Python's
  \<open>str.isspace\<close>), \<open>\d\<close> matches the ten ASCII digits, and under \<open>re.IGNORECASE\<close> a letter of
  the pattern matches exactly its two ASCII cases.
\<close>

definition newline :: char where
  "newline = CHR 0x0A"

definition is_space :: "char \<Rightarrow> bool" where
  "is_space c \<longleftrightarrow>
     c \<in> set [CHR 0x09, CHR 0x0A, CHR 0x0B, CHR 0x0C, CHR 0x0D, CHR 0x1C, CHR 0x1D,
              CHR 0x1E, CHR 0x1F, CHR 0x20, CHR 0x85, CHR 0xA0]"

definition is_digit :: "char \<Rightarrow> bool" where
  "is_digit c \<longleftrightarrow> c \<in> set ''0123456789''"

definition lower_char :: "char \<Rightarrow> char" where
  "lower_char c =
     (case map_of (zip ''ABCDEFGHIJKLMNOPQRSTUVWXYZ'' ''abcdefghijklmnopqrstuvwxyz'') c of
        Some l \<Rightarrow> l
      | None \<Rightarrow> c)"

definition upper_char :: "char \<Rightarrow> char" where
  "upper_char c =
     (case map_of (zip ''abcdefghijklmnopqrstuvwxyz'' ''ABCDEFGHIJKLMNOPQRSTUVWXYZ'') c of
        Some u \<Rightarrow> u
      | None \<Rightarrow> c)"


definition str_upper :: "string \<Rightarrow> string" where
  "str_upper s = map upper_char s"

definition capitalize :: "string \<Rightarrow> string" where
  "capitalize s = (case s of [] \<Rightarrow> [] | c # cs \<Rightarrow> upper_char c # map lower_char cs)"

text \<open>
  The pieces of the pattern. Each takes the text at the current position and returns the
  text it consumed and the rest, or \<open>None\<close>. \<open>match_literal\<close> is a literal under
  \<open>re.IGNORECASE\<close>; \<open>match_alternatives\<close> an alternation of literals, tried in order;
  \<open>match_plus\<close> a greedy \<open>+\<close> over a character class.
\<close>

fun match_literal :: "string \<Rightarrow> string \<Rightarrow> (string \<times> string) option" where
  "match_literal [] s = Some ([], s)"
| "match_literal (p # ps) [] = None"
| "match_literal (p # ps) (c # cs) =
     (if lower_char c = lower_char p
      then (case match_literal ps cs of
              None \<Rightarrow> None
            | Some (m, rest) \<Rightarrow> Some (c # m, rest))
      else None)"

fun match_alternatives :: "string list \<Rightarrow> string \<Rightarrow> (string \<times> string) option" where
  "match_alternatives [] s = None"
| "match_alternatives (p # ps) s =
     (case match_literal p s of
        Some r \<Rightarrow> Some r
      | None \<Rightarrow> match_alternatives ps s)"

definition match_plus :: "(char \<Rightarrow> bool) \<Rightarrow> string \<Rightarrow> (string \<times> string) option" where
  "match_plus cls s =
     (if takeWhile cls s = [] then None else Some (takeWhile cls s, dropWhile cls s))"

text \<open>The class attribute \<open>PLANETS\<close>, which is also the order of the pattern's first group.\<close>

definition parser_PLANETS :: "string list" where
  "parser_PLANETS =
     [''Sun'', ''Moon'', ''Mars'', ''Mercury'', ''Jupiter'',
      ''Venus'', ''Saturn'', ''Rahu'', ''Ketu'']"

text \<open>\<open>(\d+|I)\<close>\<close>

definition match_ordinal :: "string \<Rightarrow> (string \<times> string) option" where
  "match_ordinal s =
     (case match_plus is_digit s of
        Some r \<Rightarrow> Some r
      | None \<Rightarrow> match_literal ''I'' s)"

text \<open>\<open>(?:st|nd|rd|th)?\<close>\<close>

definition match_suffix :: "string \<Rightarrow> string \<times> string" where
  "match_suffix s =
     (case match_alternatives [''st'', ''nd'', ''rd'', ''th''] s of
        Some r \<Rightarrow> r
      | None \<Rightarrow> ([], s))"

text \<open>
  The pattern after its anchor,
  \<^verbatim>\<open>(Sun|Moon|Mars|Mercury|Jupiter|Venus|Saturn|Rahu|Ketu)\s+in\s+(\d+|I)(?:st|nd|rd|th)?\s+[Hh]ouse\<close>
  with \<open>re.IGNORECASE\<close>, tried at one position; the result is groups 0, 1 and 2.
  The engine backtracks, but here no second try can succeed where the first fails: no
  planet name is a prefix of another; a shorter run of \<open>\s+\<close> or \<open>\d+\<close> leaves a space or a
  digit where a letter, or a space, must follow; and giving up the optional suffix
  leaves its first letter where \<open>\s+\<close> must match. So each piece is taken greedily, once.
\<close>

definition planet_house_pattern :: "string \<Rightarrow> (string \<times> string \<times> string) option" where
  "planet_house_pattern s =
     (case match_alternatives parser_PLANETS s of None \<Rightarrow> None | Some (g1, s1) \<Rightarrow>
      case match_plus is_space s1 of None \<Rightarrow> None | Some (w1, s2) \<Rightarrow>
      case match_literal ''in'' s2 of None \<Rightarrow> None | Some (kw, s3) \<Rightarrow>
      case match_plus is_space s3 of None \<Rightarrow> None | Some (w2, s4) \<Rightarrow>
      case match_ordinal s4 of None \<Rightarrow> None | Some (g2, s5) \<Rightarrow>
      case match_suffix s5 of (sfx, s6) \<Rightarrow>
      case match_plus is_space s6 of None \<Rightarrow> None | Some (w3, s7) \<Rightarrow>
      case match_literal ''house'' s7 of None \<Rightarrow> None | Some (hs, s8) \<Rightarrow>
        Some (g1 @ w1 @ kw @ w2 @ g2 @ sfx @ w3 @ hs, g1, g2))"

text \<open>A match object: \<open>start()\<close>, \<open>end()\<close>, \<open>group(0)\<close>, \<open>group(1)\<close>, \<open>group(2)\<close>.\<close>

record re_match =
  m_start :: nat
  m_end :: nat
  m_group0 :: string
  m_group1 :: string
  m_group2 :: string

text \<open>
  What a piece consumes is a prefix of the text, and the pattern never matches the empty
  string: this is what makes the scan below advance.
\<close>

lemma match_literal_splits:
  "match_literal p s = Some (m, rest) \<Longrightarrow> s = m @ rest \<and> map lower_char m = map lower_char p"
proof (induction p s arbitrary: m rest rule: match_literal.induct)
  case (1 s)
  then show ?case by simp
next
  case (2 p ps)
  then show ?case by simp
next
  case (3 p ps c cs)
  then show ?case by (auto split: if_splits option.splits)
qed

lemma planet_house_pattern_nonempty:
  "planet_house_pattern s = Some (g0, g1, g2) \<Longrightarrow> g0 \<noteq> []"
  unfolding planet_house_pattern_def
  by (auto split: option.splits prod.splits dest!: match_literal_splits)

text \<open>
  \<open>pattern.finditer(text)\<close> from offset \<open>pos\<close>, where \<open>s\<close> is the text from \<open>pos\<close> on and
  \<open>bol\<close> tells whether the \<open>^\<close> of \<open>re.MULTILINE\<close> matches at \<open>pos\<close>: at offset 0 and right
  after a newline. After a match the scan resumes at its end; elsewhere it moves on by
  one character.
\<close>

function finditer :: "nat \<Rightarrow> bool \<Rightarrow> string \<Rightarrow> re_match list" where
  "finditer pos bol s =
     (if s = [] then []
      else case (if bol then planet_house_pattern s else None) of
             Some (g0, g1, g2) \<Rightarrow>
               \<lparr>m_start = pos, m_end = pos + length g0,
                 m_group0 = g0, m_group1 = g1, m_group2 = g2\<rparr> #
               finditer (pos + length g0) (last g0 = newline) (drop (length g0) s)
           | None \<Rightarrow> finditer (pos + 1) (hd s = newline) (tl s))"
  by pat_completeness auto
termination
  by (relation "measure (\<lambda>(pos, bol, s). length s)")
    (auto split: if_splits dest: planet_house_pattern_nonempty)

declare finditer.simps [simp del]

text \<open>
  \<open>int(house_str)\<close> on a string of decimal digits. Python integers are unbounded; the
  interpreter's configurable limit on the number of digits it converts is not modelled.
\<close>

definition digit_value :: "char \<Rightarrow> int" where
  "digit_value c =
     (case map_of (zip ''0123456789'' [0, 1, 2, 3, 4, 5, 6, 7, 8, 9]) c of
        Some d \<Rightarrow> d
      | None \<Rightarrow> 0)"

definition int_of_digits :: "string \<Rightarrow> int" where
  "int_of_digits s = foldl (\<lambda>acc c. 10 * acc + digit_value c) 0 s"

record heading =
  h_planet :: string
  h_house :: int
  h_start_pos :: nat
  h_end_pos :: nat
  h_match_text :: string

text \<open>
  \<^verbatim>\<open>
    planet = match.group(1).capitalize()
    house_str = match.group(2)
    house = 1 if house_str.upper() == 'I' else int(house_str)
  \<close>
\<close>

definition heading_of_match :: "re_match \<Rightarrow> heading" where
  "heading_of_match m =
     \<lparr>h_planet = capitalize (m_group1 m),
      h_house = (if str_upper (m_group2 m) = ''I'' then 1 else int_of_digits (m_group2 m)),
      h_start_pos = m_start m,
      h_end_pos = m_end m,
      h_match_text = m_group0 m\<rparr>"

definition find_all_planet_house_headings :: "string \<Rightarrow> heading list" where
  "find_all_planet_house_headings text = map heading_of_match (finditer 0 True text)"

section \<open>Chunk extractor (src/ingestion/chunker.py)\<close>

text \<open>\<open>text[start:end]\<close> for offsets that are not negative, and \<open>str.strip()\<close>.\<close>

definition slice :: "string \<Rightarrow> nat \<Rightarrow> nat \<Rightarrow> string" where
  "slice text start end = take (end - start) (drop start text)"

definition strip :: "string \<Rightarrow> string" where
  "strip s = rev (dropWhile is_space (rev (dropWhile is_space s)))"

record chunk =
  c_planet :: string
  c_house :: int
  c_heading :: string
  c_content :: string
  c_char_count :: nat

text \<open>
  The span of the \<open>i\<close>-th chunk:
  \<^verbatim>\<open>
    start_pos = heading['start_pos']
    if i < len(headings) - 1: end_pos = headings[i + 1]['start_pos']
    else: end_pos = len(text)
  \<close>
\<close>

definition chunk_span :: "string \<Rightarrow> heading list \<Rightarrow> nat \<Rightarrow> nat \<times> nat" where
  "chunk_span text headings i =
     (h_start_pos (headings ! i),
      if int i < int (length headings) - 1 then h_start_pos (headings ! (i + 1))
      else length text)"

definition make_chunk :: "string \<Rightarrow> heading list \<Rightarrow> nat \<Rightarrow> chunk" where
  "make_chunk text headings i =
     (let heading = headings ! i;
          (start_pos, end_pos) = chunk_span text headings i;
          chunk_text = strip (slice text start_pos end_pos)
      in \<lparr>c_planet = h_planet heading, c_house = h_house heading,
           c_heading = h_match_text heading, c_content = chunk_text,
           c_char_count = length chunk_text\<rparr>)"

text \<open>\<open>for i, heading in enumerate(headings)\<close>, after \<open>if not headings: return []\<close>.\<close>

definition extract_chunks :: "string \<Rightarrow> chunk list" where
  "extract_chunks text =
     (let headings = find_all_planet_house_headings text
      in if headings = [] then []
         else map (make_chunk text headings) [0..<length headings])"

text \<open>
  Documents for the examples. \<open>parser_test_text\<close> is the text that the self-test at the end
  of \<open>regex_parser.py\<close> feeds to the parser; its headings are indented by four spaces.
\<close>

definition example_document :: string where
  "example_document =
     ''Preface'' @ [newline] @ ''Sun in 1st House'' @ [newline] @ ''A  '' @ [newline] @
     ''Moon in 3rd House'' @ [newline] @ ''B''"

definition parser_test_text :: string where
  "parser_test_text =
     [newline] @ ''    Sun in 1st House'' @ [newline] @
     ''    This is some content about Sun in first house.'' @ [newline] @
     ''    '' @ [newline] @
     ''    Sun in 2nd house'' @ [newline] @
     ''    This is content about Sun in second house.'' @ [newline] @
     ''    '' @ [newline] @
     ''    Moon in 3rd House'' @ [newline] @
     ''    Content about Moon.'' @ [newline] @
     ''    ''"

section \<open>Embedding and upload (src/ingestion/embeddings.py, pinecone\_client.py)\<close>
















section \<open>Properties of the chart model\<close>

lemma validate_loop_iff:
  "validate_loop chart ps \<longleftrightarrow>
     (\<forall>p \<in> set ps. \<exists>h. map_of chart p = Some h \<and> 1 \<le> h \<and> h \<le> 12)"
  by (induction ps) (auto split: option.splits)

text \<open>
  C6 (amended). \<open>validate_chart\<close> is true exactly when each of the nine required planets is
  a key whose house lies in 1..12; entries under any other key are not inspected. Deleting
  a required planet, or setting a required planet's house to 0 or 13, makes it false. The
  function is total: it returns a boolean on every chart.
\<close>

theorem validate_chart_required_only:
  "(validate_chart chart \<longleftrightarrow>
      (\<forall>p \<in> set required_planets. \<exists>h. map_of chart p = Some h \<and> 1 \<le> h \<and> h \<le> 12)) \<and>
   (p \<in> set required_planets \<longrightarrow> \<not> validate_chart (AList.delete p chart)) \<and>
   (p \<in> set required_planets \<and> (h = 0 \<or> h = 13) \<longrightarrow>
      \<not> validate_chart (AList.update p h chart))"
proof (intro conjI impI)
  show "validate_chart chart \<longleftrightarrow>
      (\<forall>p \<in> set required_planets. \<exists>h. map_of chart p = Some h \<and> 1 \<le> h \<and> h \<le> 12)"
    by (simp only: validate_chart_def validate_loop_iff)
next
  assume "p \<in> set required_planets"
  moreover have "map_of (AList.delete p chart) p = None"
    by (simp add: delete_conv')
  ultimately show "\<not> validate_chart (AList.delete p chart)"
    unfolding validate_chart_def validate_loop_iff by force
next
  assume a: "p \<in> set required_planets \<and> (h = 0 \<or> h = 13)"
  have "map_of (AList.update p h chart) p = Some h"
    by (simp add: update_conv')
  with a show "\<not> validate_chart (AList.update p h chart)"
    unfolding validate_chart_def validate_loop_iff by force
qed

theorem validate_chart_required_only_witness:
  "validate_chart
     [(''Sun'', 1), (''Moon'', 2), (''Mars'', 3), (''Mercury'', 4),
      (''Jupiter'', 5), (''Venus'', 6), (''Saturn'', 7), (''Rahu'', 8), (''Ketu'', 12)] \<and>
   ''Mars'' \<in> set required_planets \<and>
   \<not> validate_chart (AList.delete ''Mars''
     [(''Sun'', 1), (''Moon'', 2), (''Mars'', 3), (''Mercury'', 4),
      (''Jupiter'', 5), (''Venus'', 6), (''Saturn'', 7), (''Rahu'', 8), (''Ketu'', 12)]) \<and>
   \<not> validate_chart (AList.update ''Mars'' 13
     [(''Sun'', 1), (''Moon'', 2), (''Mars'', 3), (''Mercury'', 4),
      (''Jupiter'', 5), (''Venus'', 6), (''Saturn'', 7), (''Rahu'', 8), (''Ketu'', 12)])"
  using validate_chart_required_only
    [of "[(''Sun'', 1), (''Moon'', 2), (''Mars'', 3), (''Mercury'', 4),
      (''Jupiter'', 5), (''Venus'', 6), (''Saturn'', 7), (''Rahu'', 8), (''Ketu'', 12)]" "''Mars''" 13]
  by (simp add: required_planets_def)

text \<open>
  C6 as stated fails: a chart holding the nine required planets in range and one further
  key with house 13 is accepted, although not every house value is within 1..12.
\<close>

theorem validate_chart_extra_key_counterexample:
  "validate_chart
     [(''Sun'', 1), (''Moon'', 2), (''Mars'', 3), (''Mercury'', 4),
      (''Jupiter'', 5), (''Venus'', 6), (''Saturn'', 7), (''Rahu'', 8), (''Ketu'', 12),
      (''Pluto'', 13)] \<and>
   \<not> spec_validate
     [(''Sun'', 1), (''Moon'', 2), (''Mars'', 3), (''Mercury'', 4),
      (''Jupiter'', 5), (''Venus'', 6), (''Saturn'', 7), (''Rahu'', 8), (''Ketu'', 12),
      (''Pluto'', 13)]"
  by (simp add: validate_chart_def required_planets_def spec_validate_def)

lemma set_get_planets_in_house:
  "set (get_planets_in_house chart house) = {p. (p, house) \<in> set chart}"
  by (auto simp: get_planets_in_house_def)

lemma distinct_get_planets_in_house:
  "distinct (map fst chart) \<Longrightarrow> distinct (get_planets_in_house chart house)"
proof (induction chart)
  case Nil
  then show ?case by (simp add: get_planets_in_house_def)
next
  case (Cons a chart)
  obtain p h where a: "a = (p, h)" by (cases a)
  have "p \<notin> set (get_planets_in_house chart house)"
    using Cons.prems a by (force simp: set_get_planets_in_house)
  with Cons a show ?case by (simp add: get_planets_in_house_def)
qed

lemma map_of_distinct_iff:
  "distinct (map fst chart) \<Longrightarrow> map_of chart p = Some h \<longleftrightarrow> (p, h) \<in> set chart"
  by simp

lemma buckets_union:
  "(\<Union>h \<in> {1..12}. set (get_planets_in_house chart h)) =
     {p. \<exists>h. (p, h) \<in> set chart \<and> 1 \<le> h \<and> h \<le> 12}"
  by (auto simp: set_get_planets_in_house)

lemma buckets_union_in_range:
  assumes "list_all (\<lambda>(p, h). 1 \<le> h \<and> h \<le> 12) chart"
  shows "(\<Union>h \<in> {1..12}. set (get_planets_in_house chart h)) = fst ` set chart"
  unfolding buckets_union using assms by (force simp: list_all_iff)

lemma bucket_out_of_range_empty:
  assumes "list_all (\<lambda>(p, h). 1 \<le> h \<and> h \<le> 12) chart" and "\<not> (1 \<le> house \<and> house \<le> 12)"
  shows "get_planets_in_house chart house = []"
proof -
  have "set (get_planets_in_house chart house) = {}"
    unfolding set_get_planets_in_house using assms by (auto simp: list_all_iff)
  then show ?thesis by simp
qed

text \<open>
  C7 (amended). For a chart (distinct keys) and any house argument, in range or not,
  \<open>get_planets_in_house\<close> returns, without repetition, exactly the planets assigned to that
  house. The buckets of houses 1..12 are pairwise disjoint and their union is the set of
  planets whose house lies in 1..12. When every house of the chart lies in 1..12 the twelve
  buckets therefore partition the chart's planet set, and an argument outside 1..12 gives
  the empty list.
\<close>

theorem get_planets_in_house_buckets:
  assumes "distinct (map fst chart)"
  shows "set (get_planets_in_house chart house) = {p. map_of chart p = Some house} \<and>
         distinct (get_planets_in_house chart house) \<and>
         (\<Union>h \<in> {1..12}. set (get_planets_in_house chart h)) =
           {p. \<exists>h. map_of chart p = Some h \<and> 1 \<le> h \<and> h \<le> 12} \<and>
         (h1 \<noteq> h2 \<longrightarrow>
           set (get_planets_in_house chart h1) \<inter> set (get_planets_in_house chart h2) = {}) \<and>
         (list_all (\<lambda>(p, h). 1 \<le> h \<and> h \<le> 12) chart \<longrightarrow>
           (\<Union>h \<in> {1..12}. set (get_planets_in_house chart h)) = fst ` set chart \<and>
           (\<not> (1 \<le> house \<and> house \<le> 12) \<longrightarrow> get_planets_in_house chart house = []))"
proof (intro conjI impI)
  note m = map_of_distinct_iff [OF assms]
  show "set (get_planets_in_house chart house) = {p. map_of chart p = Some house}"
    by (simp add: set_get_planets_in_house m)
  show "distinct (get_planets_in_house chart house)"
    using assms by (rule distinct_get_planets_in_house)
  show "(\<Union>h \<in> {1..12}. set (get_planets_in_house chart h)) =
           {p. \<exists>h. map_of chart p = Some h \<and> 1 \<le> h \<and> h \<le> 12}"
    by (simp only: buckets_union m)
  show "set (get_planets_in_house chart h1) \<inter> set (get_planets_in_house chart h2) = {}"
    if "h1 \<noteq> h2"
    using that assms by (auto simp: set_get_planets_in_house dest: eq_key_imp_eq_value)
  show "(\<Union>h \<in> {1..12}. set (get_planets_in_house chart h)) = fst ` set chart"
    if "list_all (\<lambda>(p, h). 1 \<le> h \<and> h \<le> 12) chart"
    using that by (rule buckets_union_in_range)
  show "get_planets_in_house chart house = []"
    if "list_all (\<lambda>(p, h). 1 \<le> h \<and> h \<le> 12) chart" "\<not> (1 \<le> house \<and> house \<le> 12)"
    using that by (rule bucket_out_of_range_empty)
qed

theorem get_planets_in_house_buckets_witness:
  "distinct (map fst [(''Sun'', 1 :: int), (''Moon'', 1), (''Mars'', 12)]) \<and>
   list_all (\<lambda>(p, h). 1 \<le> h \<and> h \<le> 12) [(''Sun'', 1 :: int), (''Moon'', 1), (''Mars'', 12)] \<and>
   set (get_planets_in_house [(''Sun'', 1), (''Moon'', 1), (''Mars'', 12)] 1) = {''Sun'', ''Moon''} \<and>
   (\<Union>h \<in> {1..12}. set (get_planets_in_house [(''Sun'', 1), (''Moon'', 1), (''Mars'', 12)] h)) =
     {''Sun'', ''Moon'', ''Mars''} \<and>
   set (get_planets_in_house [(''Sun'', 1), (''Moon'', 1), (''Mars'', 12)] 1) \<inter>
     set (get_planets_in_house [(''Sun'', 1), (''Moon'', 1), (''Mars'', 12)] 12) = {} \<and>
   get_planets_in_house [(''Sun'', 1), (''Moon'', 1), (''Mars'', 12)] 13 = []"
  using get_planets_in_house_buckets
    [of "[(''Sun'', 1), (''Moon'', 1), (''Mars'', 12)]" 13 1 12]
    get_planets_in_house_buckets
    [of "[(''Sun'', 1), (''Moon'', 1), (''Mars'', 12)]" 1 1 12]
  by (auto simp: get_planets_in_house_def)

text \<open>
  C7 as stated fails on a chart with a house outside 1..12: the planet is in none of the
  twelve buckets, and the query for the invalid house 13 is not empty.
\<close>

theorem get_planets_in_house_lost_planet_counterexample:
  "''Sun'' \<in> fst ` set [(''Sun'', 13 :: int)] \<and>
   ''Sun'' \<notin> set (concat (map (get_planets_in_house [(''Sun'', 13)]) [1..12])) \<and>
   get_planets_in_house [(''Sun'', 13)] 13 = [''Sun'']"
  by (simp add: get_planets_in_house_def upto.simps)

section \<open>Properties of the float model\<close>

lemma two_powi_less_D:
  assumes "(2::real) powi a < 2 powi b"
  shows "a < b"
proof (rule ccontr)
  assume "\<not> a < b"
  then have "b \<le> a" by simp
  then have "(2::real) powi b \<le> 2 powi a" by (intro power_int_increasing) simp_all
  with assms show False by simp
qed

lemma real_pow2_le_of_int:
  "2 ^ k \<le> (m::int) \<Longrightarrow> (2::real) ^ k \<le> real_of_int m"
  using of_int_le_iff [where ?'a = real, of "2 ^ k" m] by simp

lemma of_int_succ_le_real_pow2:
  "(m::int) < 2 ^ k \<Longrightarrow> real_of_int m + 1 \<le> (2::real) ^ k"
  using of_int_le_iff [where ?'a = real, of "m + 1" "2 ^ k"] by simp

lemma float_exponent_bounds:
  assumes "x \<noteq> 0"
  shows "2 powi (float_exponent x) \<le> \<bar>x\<bar> \<and> \<bar>x\<bar> < 2 powi (float_exponent x + 1)"
proof (cases "1 \<le> \<bar>x\<bar>")
  case True
  define n where "n = \<lfloor>\<bar>x\<bar>\<rfloor>"
  have n1: "1 \<le> n" using True by (simp add: n_def le_floor_iff)
  then have b1: "1 \<le> bitlen n" by (simp add: bitlen_ge_iff_power)
  have e: "float_exponent x = bitlen n - 1"
    using True by (simp add: float_exponent_def n_def)
  from bitlen_bounds [of n] n1
  have lo: "2 ^ nat (bitlen n - 1) \<le> n" and hi: "n < 2 ^ nat (bitlen n)" by auto
  have "(2::real) ^ nat (bitlen n - 1) \<le> real_of_int n"
    using lo by (rule real_pow2_le_of_int)
  also have "\<dots> \<le> \<bar>x\<bar>" by (simp add: n_def)
  finally have l: "2 powi (bitlen n - 1) \<le> \<bar>x\<bar>"
    using b1 by (simp add: power_int_nonneg_exp)
  have "real_of_int n + 1 \<le> (2::real) ^ nat (bitlen n)"
    using hi by (rule of_int_succ_le_real_pow2)
  moreover have "\<bar>x\<bar> < real_of_int n + 1" by (simp add: n_def)
  ultimately have "\<bar>x\<bar> < 2 powi (bitlen n)"
    using b1 by (simp add: power_int_nonneg_exp)
  with l e show ?thesis by simp
next
  case False
  define y where "y = 1 / \<bar>x\<bar>"
  define m where "m = \<lceil>y\<rceil> - 1"
  have xpos: "0 < \<bar>x\<bar>" using assms by simp
  have y1: "1 < y" using False xpos by (simp add: y_def)
  have m1: "1 \<le> m" using y1 by (simp add: m_def less_ceiling_iff)
  then have b1: "1 \<le> bitlen m" by (simp add: bitlen_ge_iff_power)
  have my: "real_of_int m < y" using ceiling_correct [of y] by (simp add: m_def)
  have ym: "y \<le> real_of_int m + 1" by (simp add: m_def)
  have e: "float_exponent x = - bitlen m"
    using False by (simp add: float_exponent_def m_def y_def)
  from bitlen_bounds [of m] m1
  have lo: "2 ^ nat (bitlen m - 1) \<le> m" and hi: "m < 2 ^ nat (bitlen m)" by auto
  have "(2::real) ^ nat (bitlen m - 1) \<le> real_of_int m"
    using lo by (rule real_pow2_le_of_int)
  with my have ylo: "2 ^ nat (bitlen m - 1) < y" by linarith
  have "real_of_int m + 1 \<le> (2::real) ^ nat (bitlen m)"
    using hi by (rule of_int_succ_le_real_pow2)
  with ym have yhi: "y \<le> 2 ^ nat (bitlen m)" by linarith
  have x_eq: "\<bar>x\<bar> = 1 / y" using xpos by (simp add: y_def)
  have ypos: "0 < y" using y1 by simp
  have p1: "2 powi (- bitlen m) = 1 / (2::real) ^ nat (bitlen m)"
    using b1 by (simp add: power_int_minus_divide power_int_nonneg_exp)
  have p2: "2 powi (- bitlen m + 1) = 1 / (2::real) ^ nat (bitlen m - 1)"
  proof -
    have "- bitlen m + 1 = - (bitlen m - 1)" by simp
    then have "2 powi (- bitlen m + 1) = 1 / (2::real) powi (bitlen m - 1)"
      by (simp only: power_int_minus_divide)
    then show ?thesis using b1 by (simp add: power_int_nonneg_exp)
  qed
  have "1 / (2::real) ^ nat (bitlen m) \<le> 1 / y"
    using yhi ypos by (simp add: frac_le)
  moreover have "1 / y < 1 / (2::real) ^ nat (bitlen m - 1)"
    using ylo by (simp add: frac_less2)
  ultimately show ?thesis
    using e p1 p2 x_eq by simp
qed

lemma float_exponent_eqI:
  assumes "2 powi e \<le> \<bar>x\<bar>" and "\<bar>x\<bar> < 2 powi (e + 1)"
  shows "float_exponent x = e"
proof -
  have "0 < (2::real) powi e" by simp
  with assms(1) have "0 < \<bar>x\<bar>" by linarith
  then have nz: "x \<noteq> 0" by simp
  from float_exponent_bounds [OF nz]
  have a: "2 powi (float_exponent x) \<le> \<bar>x\<bar>" and b: "\<bar>x\<bar> < 2 powi (float_exponent x + 1)"
    by auto
  have "(2::real) powi e < 2 powi (float_exponent x + 1)" using assms(1) b by simp
  then have 1: "e < float_exponent x + 1"
    by (rule two_powi_less_D)
  have "(2::real) powi (float_exponent x) < 2 powi (e + 1)" using assms(2) a by simp
  then have 2: "float_exponent x < e + 1"
    by (rule two_powi_less_D)
  from 1 2 show ?thesis by simp
qed

lemma float_exponent_le:
  assumes "x \<noteq> 0" and "\<bar>x\<bar> < 2 powi (e + 1)"
  shows "float_exponent x \<le> e"
proof -
  from float_exponent_bounds [OF assms(1)]
  have "2 powi (float_exponent x) \<le> \<bar>x\<bar>" by simp
  with assms(2) have "(2::real) powi (float_exponent x) < 2 powi (e + 1)" by simp
  then have "float_exponent x < e + 1"
    by (rule two_powi_less_D)
  then show ?thesis by simp
qed

lemma round_half_even_of_int: "round_half_even (of_int n) = n"
  by (simp add: round_half_even_def)

lemma round_half_even_le:
  assumes "x \<le> of_int N"
  shows "round_half_even x \<le> N"
proof (cases "x = of_int N")
  case True
  then show ?thesis by (simp add: round_half_even_of_int)
next
  case False
  with assms have "x < of_int N" by simp
  then have "\<lfloor>x\<rfloor> < N" by (simp add: floor_less_iff)
  then have "\<lfloor>x\<rfloor> + 1 \<le> N" by simp
  then show ?thesis by (simp add: round_half_even_def Let_def)
qed

lemma round_half_even_ge:
  assumes "of_int N \<le> x"
  shows "N \<le> round_half_even x"
proof -
  have "N \<le> \<lfloor>x\<rfloor>" using assms by (simp add: le_floor_iff)
  then show ?thesis by (simp add: round_half_even_def Let_def)
qed

lemma round_half_even_eqI:
  assumes "of_int n - 1 / 2 < x" and "x < of_int n + 1 / 2"
  shows "round_half_even x = n"
proof (cases "of_int n \<le> x")
  case True
  then have f: "\<lfloor>x\<rfloor> = n" using assms(2) by (simp add: floor_eq_iff)
  then show ?thesis using assms(2) by (simp add: round_half_even_def Let_def)
next
  case False
  then have f: "\<lfloor>x\<rfloor> = n - 1" using assms(1) by (simp add: floor_eq_iff)
  then show ?thesis using assms(1) by (simp add: round_half_even_def Let_def)
qed

lemma fl_nonneg: "0 \<le> x \<Longrightarrow> 0 \<le> fl x"
  using round_half_even_ge [of 0]
  by (simp add: fl_def Let_def zero_le_mult_iff)

lemma fl_nonpos: "x \<le> 0 \<Longrightarrow> fl x \<le> 0"
  using round_half_even_le [of _ 0]
  by (simp add: fl_def Let_def mult_le_0_iff divide_le_0_iff)

lemma quantum_le:
  assumes "x \<noteq> 0" and "\<bar>x\<bar> < 2 powi (k + 53)" and "- 1074 \<le> k"
  shows "max (float_exponent x) (- 1022) - 52 \<le> k"
proof -
  have "float_exponent x \<le> k + 52"
    using assms(1) by (rule float_exponent_le) (use assms(2) in \<open>simp add: add.commute add.left_commute\<close>)
  with assms(3) show ?thesis by simp
qed

lemma grid_multiple:
  assumes "q \<le> k"
  shows "of_int M * 2 powi k / 2 powi q = (of_int (M * 2 ^ nat (k - q)) :: real)"
proof -
  have "(2::real) powi k = 2 powi (k - q) * 2 powi q"
    by (simp flip: power_int_add)
  moreover have "(2::real) powi (k - q) = 2 ^ nat (k - q)"
    using assms by (simp add: power_int_nonneg_exp)
  ultimately show ?thesis by simp
qed

lemma grid_multiple_back:
  assumes "q \<le> k"
  shows "real_of_int (M * 2 ^ nat (k - q)) * 2 powi q = of_int M * 2 powi k"
proof -
  have "(2::real) powi k = 2 powi (k - q) * 2 powi q"
    by (simp flip: power_int_add)
  moreover have "(2::real) powi (k - q) = 2 ^ nat (k - q)"
    using assms by (simp add: power_int_nonneg_exp)
  ultimately show ?thesis by simp
qed

lemma fl_grid_fixed:
  assumes "B = of_int M * 2 powi k" and "- 1074 \<le> k" and "\<bar>B\<bar> < 2 powi (k + 53)"
  shows "fl B = B"
proof (cases "B = 0")
  case True
  then show ?thesis by (simp add: fl_def)
next
  case False
  define q where "q = max (float_exponent B) (- 1022) - 52"
  have qk: "q \<le> k" unfolding q_def using False assms(3,2) by (rule quantum_le)
  have "B / 2 powi q = of_int (M * 2 ^ nat (k - q))"
    unfolding assms(1) using qk by (rule grid_multiple)
  then have "round_half_even (B / 2 powi q) = M * 2 ^ nat (k - q)"
    by (simp only: round_half_even_of_int)
  then have "fl B = real_of_int (M * 2 ^ nat (k - q)) * 2 powi q"
    using False by (simp add: fl_def Let_def q_def)
  also have "\<dots> = B" unfolding assms(1) using qk by (rule grid_multiple_back)
  finally show ?thesis .
qed

lemma fl_le_grid:
  assumes "0 < B" and "B = of_int M * 2 powi k" and "- 1074 \<le> k" and "B < 2 powi (k + 53)"
    and "x \<le> B"
  shows "fl x \<le> B"
proof (cases "x \<le> 0")
  case True
  then have "fl x \<le> 0" by (rule fl_nonpos)
  with assms(1) show ?thesis by simp
next
  case False
  then have xpos: "0 < x" by simp
  define q where "q = max (float_exponent x) (- 1022) - 52"
  have "\<bar>x\<bar> < 2 powi (k + 53)" using xpos assms(4,5) by simp
  then have qk: "q \<le> k" unfolding q_def using xpos assms(3) by (intro quantum_le) simp_all
  have pos: "0 < (2::real) powi q" by simp
  have "x / 2 powi q \<le> B / 2 powi q"
    using assms(5) pos by (simp add: divide_right_mono)
  also have "B / 2 powi q = of_int (M * 2 ^ nat (k - q))"
    unfolding assms(2) using qk by (rule grid_multiple)
  finally have "round_half_even (x / 2 powi q) \<le> M * 2 ^ nat (k - q)"
    by (rule round_half_even_le)
  then have "real_of_int (round_half_even (x / 2 powi q)) \<le> real_of_int (M * 2 ^ nat (k - q))"
    by (simp only: of_int_le_iff)
  then have "real_of_int (round_half_even (x / 2 powi q)) * 2 powi q
               \<le> real_of_int (M * 2 ^ nat (k - q)) * 2 powi q"
    using pos by (simp only: mult_le_cancel_right_pos)
  also have "real_of_int (M * 2 ^ nat (k - q)) * 2 powi q = B"
    unfolding assms(2) using qk by (rule grid_multiple_back)
  finally have "real_of_int (round_half_even (x / 2 powi q)) * 2 powi q \<le> B" .
  moreover have "fl x = real_of_int (round_half_even (x / 2 powi q)) * 2 powi q"
    using xpos by (simp add: fl_def Let_def q_def)
  ultimately show ?thesis by (simp only:)
qed

lemma fl_ge_grid:
  assumes "B < 0" and "B = of_int M * 2 powi k" and "- 1074 \<le> k" and "- B < 2 powi (k + 53)"
    and "B \<le> x"
  shows "B \<le> fl x"
proof (cases "0 \<le> x")
  case True
  then have "0 \<le> fl x" by (rule fl_nonneg)
  with assms(1) show ?thesis by simp
next
  case False
  then have xneg: "x < 0" by simp
  define q where "q = max (float_exponent x) (- 1022) - 52"
  have "\<bar>x\<bar> < 2 powi (k + 53)" using xneg assms(4,5) by simp
  then have qk: "q \<le> k" unfolding q_def using xneg assms(3) by (intro quantum_le) simp_all
  have pos: "0 < (2::real) powi q" by simp
  have "B / 2 powi q \<le> x / 2 powi q"
    using assms(5) pos by (simp add: divide_right_mono)
  moreover have "B / 2 powi q = of_int (M * 2 ^ nat (k - q))"
    unfolding assms(2) using qk by (rule grid_multiple)
  ultimately have "of_int (M * 2 ^ nat (k - q)) \<le> x / 2 powi q" by simp
  then have "M * 2 ^ nat (k - q) \<le> round_half_even (x / 2 powi q)"
    by (rule round_half_even_ge)
  then have "real_of_int (M * 2 ^ nat (k - q)) \<le> real_of_int (round_half_even (x / 2 powi q))"
    by (simp only: of_int_le_iff)
  then have "real_of_int (M * 2 ^ nat (k - q)) * 2 powi q
               \<le> real_of_int (round_half_even (x / 2 powi q)) * 2 powi q"
    using pos by (simp only: mult_le_cancel_right_pos)
  moreover have "real_of_int (M * 2 ^ nat (k - q)) * 2 powi q = B"
    unfolding assms(2) using qk by (rule grid_multiple_back)
  moreover have "fl x = real_of_int (round_half_even (x / 2 powi q)) * 2 powi q"
    using xneg by (simp add: fl_def Let_def q_def)
  ultimately show ?thesis by (simp only:)
qed

lemma fl_le_int:
  assumes "0 < M" and "M < 2 ^ 53" and "x \<le> of_int M"
  shows "fl x \<le> of_int M"
proof -
  have "real_of_int M < 2 ^ 53"
    using of_int_less_iff [where ?'a = real, of M "2 ^ 53"] assms(2) by simp
  then show ?thesis
    using assms by (intro fl_le_grid [where M = M and k = 0]) simp_all
qed

lemma fl_ge_int:
  assumes "M < 0" and "- (2 ^ 53) < M" and "of_int M \<le> x"
  shows "of_int M \<le> fl x"
proof -
  have "- real_of_int M < 2 ^ 53"
    using of_int_less_iff [where ?'a = real, of "- M" "2 ^ 53"] assms(2) by simp
  then show ?thesis
    using assms by (intro fl_ge_grid [where M = M and k = 0]) simp_all
qed

lemma fl_of_int:
  assumes "\<bar>k\<bar> < 2 ^ 53"
  shows "fl (of_int k) = of_int k"
proof -
  have "\<bar>real_of_int k\<bar> < 2 ^ 53"
    using of_int_less_iff [where ?'a = real, of "\<bar>k\<bar>" "2 ^ 53"] assms by simp
  then show ?thesis
    by (intro fl_grid_fixed [where M = k and k = 0]) simp_all
qed

lemma fl_numeral [simp]:
  "numeral w < (2::int) ^ 53 \<Longrightarrow> fl (numeral w) = numeral w"
  using fl_of_int [of "numeral w"] by simp

lemma fl_neg_numeral [simp]:
  "numeral w < (2::int) ^ 53 \<Longrightarrow> fl (- numeral w) = - numeral w"
  using fl_of_int [of "- numeral w"] by simp

lemma fl_one [simp]: "fl 1 = 1"
  using fl_of_int [of 1] by simp

lemma fl_zero [simp]: "fl 0 = 0"
  by (simp add: fl_def)

lemma trunc_small: "\<bar>r\<bar> < 1 \<Longrightarrow> trunc r = 0"
  by (auto simp: trunc_def floor_eq_iff ceiling_eq_iff)

lemma fmod_small:
  assumes "\<bar>x\<bar> < y"
  shows "fmod x y = x"
proof -
  have "\<bar>x / y\<bar> < 1" using assms by simp
  then show ?thesis by (simp add: fmod_def trunc_small)
qed

lemma fmod_once:
  assumes "y \<le> x" and "x < 2 * y" and "0 < y"
  shows "fmod x y = x - y"
proof -
  have "1 \<le> x / y" "x / y < 2" using assms by (simp_all add: field_simps)
  then have "\<lfloor>x / y\<rfloor> = 1" by (simp add: floor_eq_iff)
  then show ?thesis using assms by (simp add: fmod_def trunc_def)
qed

lemma fmod_nonneg:
  assumes "0 \<le> x" and "0 < y"
  shows "0 \<le> fmod x y \<and> fmod x y < y"
proof -
  define n where "n = \<lfloor>x / y\<rfloor>"
  have q: "0 \<le> x / y" using assms by simp
  have "real_of_int n \<le> x / y" and "x / y < real_of_int n + 1"
    by (simp_all add: n_def)
  then have "real_of_int n * y \<le> x" and "x < (real_of_int n + 1) * y"
    using assms(2) by (simp_all add: pos_le_divide_eq pos_divide_less_eq)
  then have "0 \<le> x - y * real_of_int n" and "x - y * real_of_int n < y"
    by (simp_all add: algebra_simps)
  then show ?thesis using q by (simp add: fmod_def trunc_def n_def)
qed

lemma fmod_neg:
  assumes "x < 0" and "0 < y"
  shows "- y < fmod x y \<and> fmod x y \<le> 0"
proof -
  define n where "n = \<lceil>x / y\<rceil>"
  have q: "\<not> 0 \<le> x / y" using assms by (simp add: divide_less_0_iff not_le)
  have "x / y \<le> real_of_int n" and "real_of_int n - 1 < x / y"
    using ceiling_correct [of "x / y"] by (simp_all add: n_def)
  then have "x \<le> real_of_int n * y" and "(real_of_int n - 1) * y < x"
    using assms(2) by (simp_all add: pos_divide_le_eq pos_less_divide_eq)
  then have "x - y * real_of_int n \<le> 0" and "- y < x - y * real_of_int n"
    by (simp_all add: algebra_simps)
  then show ?thesis using q by (simp add: fmod_def trunc_def n_def)
qed

lemma fl_eqI:
  assumes "2 powi e \<le> \<bar>x\<bar>" and "\<bar>x\<bar> < 2 powi (e + 1)"
    and "q = max e (- 1022) - 52"
    and "of_int n - 1 / 2 < x / 2 powi q" and "x / 2 powi q < of_int n + 1 / 2"
  shows "fl x = of_int n * 2 powi q"
proof -
  have e: "float_exponent x = e" using assms(1,2) by (rule float_exponent_eqI)
  have "0 < (2::real) powi e" by simp
  with assms(1) have "0 < \<bar>x\<bar>" by linarith
  then have nz: "x \<noteq> 0" by simp
  have "round_half_even (x / 2 powi q) = n" using assms(4,5) by (rule round_half_even_eqI)
  then show ?thesis using nz e assms(3) by (simp add: fl_def Let_def)
qed

lemma to_float_between:
  assumes "of_int L \<le> x" and "x \<le> of_int U" and "L < 0" and "- (2 ^ 53) < L"
    and "0 < U" and "U < 2 ^ 53"
  shows "\<exists>r. to_float x = Finite r \<and> of_int L \<le> r \<and> r \<le> of_int U"
proof -
  have lo: "of_int L \<le> fl x" using assms(3,4,1) by (rule fl_ge_int)
  have hi: "fl x \<le> of_int U" using assms(5,6,2) by (rule fl_le_int)
  have "real_of_int U < 2 ^ 53"
    using of_int_less_iff [where ?'a = real, of U "2 ^ 53"] assms(6) by simp
  moreover have "- (2 ^ 53) < real_of_int L"
    using of_int_less_iff [where ?'a = real, of "- (2 ^ 53)" L] assms(4) by simp
  ultimately have "\<bar>fl x\<bar> < 2 ^ 53" using lo hi by linarith
  moreover have "(2::real) ^ 53 \<le> 2 ^ 1024" by (rule power_increasing) simp_all
  ultimately have "\<not> 2 ^ 1024 \<le> \<bar>fl x\<bar>" by linarith
  then show ?thesis using lo hi by (simp add: to_float_def Let_def)
qed

lemma to_float_nonneg_le:
  assumes "0 \<le> x" and "x \<le> of_int U" and "0 < U" and "U < 2 ^ 53"
  shows "\<exists>r. to_float x = Finite r \<and> 0 \<le> r \<and> r \<le> of_int U"
proof -
  have lo: "0 \<le> fl x" using assms(1) by (rule fl_nonneg)
  have hi: "fl x \<le> of_int U" using assms(3,4,2) by (rule fl_le_int)
  have "real_of_int U < 2 ^ 53"
    using of_int_less_iff [where ?'a = real, of U "2 ^ 53"] assms(4) by simp
  then have "\<bar>fl x\<bar> < 2 ^ 53" using lo hi by linarith
  moreover have "(2::real) ^ 53 \<le> 2 ^ 1024" by (rule power_increasing) simp_all
  ultimately have "\<not> 2 ^ 1024 \<le> \<bar>fl x\<bar>" by linarith
  then show ?thesis using lo hi by (simp add: to_float_def Let_def)
qed

lemma float_rem_360_range:
  "\<exists>d. float_rem (Finite r) 360 = Inr (Finite d) \<and> 0 \<le> d \<and> d \<le> 360"
proof (cases "0 \<le> r")
  case True
  then have "0 \<le> fmod r 360 \<and> fmod r 360 < 360" by (rule fmod_nonneg) simp
  then show ?thesis by (simp add: Let_def)
next
  case False
  then have "r < 0" by simp
  then have m: "- 360 < fmod r 360 \<and> fmod r 360 \<le> 0" by (rule fmod_neg) simp
  show ?thesis
  proof (cases "fmod r 360 = 0")
    case True
    then show ?thesis by (simp add: Let_def)
  next
    case False
    with m have neg: "fmod r 360 < 0" by simp
    have "\<exists>d. to_float (fmod r 360 + 360) = Finite d \<and> 0 \<le> d \<and> d \<le> of_int 360"
      using m by (intro to_float_nonneg_le) simp_all
    then show ?thesis using False neg by (simp add: Let_def)
  qed
qed

lemma float_rem_360_nonneg:
  assumes "0 \<le> r"
  shows "\<exists>d. float_rem (Finite r) 360 = Inr (Finite d) \<and> 0 \<le> d \<and> d < 360"
proof -
  have "0 \<le> fmod r 360 \<and> fmod r 360 < 360" using assms by (rule fmod_nonneg) simp
  then show ?thesis by (simp add: Let_def)
qed

lemma house_of_distance:
  assumes "0 \<le> d" and "d \<le> 360"
  shows "\<exists>h. and_then (float_div (Finite d) 30) (\<lambda>quotient.
               and_then (py_int quotient) (\<lambda>house0. Inr (house0 + 1))) = Inr h \<and>
             1 \<le> h \<and> h \<le> 13"
proof -
  have "\<exists>c. to_float (d / 30) = Finite c \<and> 0 \<le> c \<and> c \<le> of_int 12"
    using assms by (intro to_float_nonneg_le) simp_all
  then obtain c where c: "to_float (d / 30) = Finite c" "0 \<le> c" "c \<le> 12" by auto
  have "0 \<le> \<lfloor>c\<rfloor>" using c(2) by simp
  moreover have "\<lfloor>c\<rfloor> \<le> 12" using c(3) by (simp add: floor_le_iff)
  ultimately show ?thesis using c by (simp add: and_then_def trunc_def)
qed

lemma degree_to_house_finite:
  assumes "to_float (p - a) = Finite r"
  shows "\<exists>h. degree_to_house (Finite p) (Finite a) = Inr h \<and> 1 \<le> h \<and> h \<le> 13"
proof -
  obtain d where d: "float_rem (Finite r) 360 = Inr (Finite d)" "0 \<le> d" "d \<le> 360"
    using float_rem_360_range [of r] by auto
  from house_of_distance [OF d(2,3)] show ?thesis
    using assms d(1) by (simp add: degree_to_house_def and_then_def)
qed

lemma degree_to_house_range:
  assumes "0 \<le> p" and "p \<le> 360" and "0 \<le> a" and "a \<le> 360"
  shows "\<exists>h. degree_to_house (Finite p) (Finite a) = Inr h \<and> 1 \<le> h \<and> h \<le> 13"
proof -
  have "\<exists>r. to_float (p - a) = Finite r \<and> of_int (- 360) \<le> r \<and> r \<le> of_int 360"
    using assms by (intro to_float_between) simp_all
  then obtain r where "to_float (p - a) = Finite r" by auto
  then show ?thesis by (rule degree_to_house_finite)
qed

lemma fl_just_below_360: "fl (360 - 1 / 2 ^ 46) = 360"
proof -
  have "fl (360 - 1 / 2 ^ 46) = of_int (360 * 2 ^ 44) * 2 powi (- 44)"
    by (rule fl_eqI [where e = 8]) simp_all
  then show ?thesis by simp
qed

lemma fl_next_above_100: "fl (100 + 1 / 2 ^ 46) = 100 + 1 / 2 ^ 46"
  by (rule fl_grid_fixed [where M = "100 * 2 ^ 46 + 1" and k = "- 46"]) simp_all

lemma fl_neg_ulp: "fl (- (1 / 2 ^ 46)) = - (1 / 2 ^ 46)"
  by (rule fl_grid_fixed [where M = "- 1" and k = "- 46"]) simp_all

lemma to_float_eq:
  assumes "fl x = r" and "\<bar>r\<bar> < 2 ^ 1024"
  shows "to_float x = Finite r"
  using assms by (simp add: to_float_def Let_def)

text \<open>
  C5 (the code departs from it). With both longitudes valid doubles in \<open>[0, 360)\<close>, the
  planet at \<open>100.0\<close> and the ascendant one unit in the last place above it, the difference
  is \<open>- 2 ^ - 46\<close>; Python's \<open>%\<close> adds 360 to it and the sum rounds to exactly \<open>360.0\<close>,
  so \<open>int(360.0 / 30) + 1\<close> is house 13.
\<close>

theorem degree_to_house_yields_13:
  "is_binary64 100 \<and> is_binary64 (100 + 1 / 2 ^ 46) \<and>
   (100::real) + 1 / 2 ^ 46 < 360 \<and>
   degree_to_house (Finite 100) (Finite (100 + 1 / 2 ^ 46)) = Inr 13"
proof -
  define u :: real where "u = 1 / 2 ^ 46"
  have u: "0 < u" "u < 1" by (simp_all add: u_def)
  have in1: "is_binary64 100"
    by (simp add: is_binary64_def to_float_def)
  have "to_float (100 + u) = Finite (100 + u)"
    using fl_next_above_100 u unfolding u_def [symmetric] by (intro to_float_eq) simp_all
  then have in2: "is_binary64 (100 + u)" by (simp add: is_binary64_def)
  have "to_float (- u) = Finite (- u)"
    using fl_neg_ulp u unfolding u_def [symmetric] by (intro to_float_eq) simp_all
  then have sub: "float_sub (Finite 100) (Finite (100 + u)) = Finite (- u)" by simp
  have "fmod (- u) 360 = - u" using u by (intro fmod_small) simp
  moreover have "to_float (- u + 360) = Finite 360"
    using fl_just_below_360 unfolding u_def [symmetric] by (intro to_float_eq) simp_all
  ultimately have rem: "float_rem (Finite (- u)) 360 = Inr (Finite 360)"
    using u by (simp add: Let_def)
  have div: "float_div (Finite 360) 30 = Inr (Finite 12)"
    by (simp add: to_float_def)
  have int: "py_int (Finite 12) = Inr 12" by (simp add: trunc_def)
  have "degree_to_house (Finite 100) (Finite (100 + u)) = Inr 13"
    unfolding degree_to_house_def sub by (simp only: rem div int and_then_def sum.case) simp
  with in1 in2 u show ?thesis unfolding u_def by simp
qed

section \<open>Properties of the chart calculation\<close>

lemma chart_loop_append:
  "chart_loop swe jd asc (ps @ qs) chart =
     and_then (chart_loop swe jd asc ps chart) (\<lambda>c. chart_loop swe jd asc qs c)"
proof (induction ps arbitrary: chart)
  case Nil
  then show ?case by (simp add: and_then_def)
next
  case (Cons a ps)
  obtain n b where a: "a = (n, b)" by (cases a)
  show ?case
    unfolding a by (cases "planet_house swe jd asc n b") (simp_all add: Cons.IH and_then_def)
qed

lemma planet_position_ok:
  assumes "swe_calc_ut swe jd body = Inr (Finite l # rest)"
  shows "calculate_planet_position swe body jd = Inr (Finite l)"
  using assms by (simp add: calculate_planet_position_def and_then_def first_item_def)

lemma ketu_degree_ok:
  assumes "0 \<le> rahu" and "rahu < 360"
  shows "\<exists>ketu. float_rem (float_add (Finite rahu) (int_to_float 180)) 360 = Inr (Finite ketu) \<and>
           0 \<le> ketu \<and> ketu < 360"
proof -
  have "\<exists>r. to_float (rahu + 180) = Finite r \<and> 0 \<le> r \<and> r \<le> of_int 540"
    using assms by (intro to_float_nonneg_le) simp_all
  then obtain r where r: "to_float (rahu + 180) = Finite r" "0 \<le> r" by auto
  have "int_to_float 180 = Finite 180" by (simp add: int_to_float_def to_float_def)
  then have "float_add (Finite rahu) (int_to_float 180) = Finite r" using r(1) by simp
  with float_rem_360_nonneg [OF r(2)] show ?thesis by simp
qed

lemma chart_loop_total:
  assumes "\<forall>body. \<exists>l rest. swe_calc_ut swe jd body = Inr (Finite l # rest) \<and> 0 \<le> l \<and> l < 360"
    and "0 \<le> asc" and "asc < 360"
  shows "\<exists>chart'. chart_loop swe jd (Finite asc) ps chart = Inr chart'"
proof (induction ps arbitrary: chart)
  case Nil
  then show ?case by simp
next
  case (Cons a ps)
  obtain n b where a: "a = (n, b)" by (cases a)
  obtain l rest where l: "swe_calc_ut swe jd b = Inr (Finite l # rest)" "0 \<le> l" "l < 360"
    using assms(1) by blast
  have pos: "calculate_planet_position swe b jd = Inr (Finite l)"
    using l(1) by (rule planet_position_ok)
  obtain ketu where k: "float_rem (float_add (Finite l) (int_to_float 180)) 360 = Inr (Finite ketu)"
    "0 \<le> ketu" "ketu < 360"
    using ketu_degree_ok [OF l(2,3)] by auto
  obtain h1 where h1: "degree_to_house (Finite l) (Finite asc) = Inr h1"
    using degree_to_house_range [of l asc] l assms(2,3) by auto
  obtain h2 where h2: "degree_to_house (Finite ketu) (Finite asc) = Inr h2"
    using degree_to_house_range [of ketu asc] k assms(2,3) by auto
  have "\<exists>h. planet_house swe jd (Finite asc) n b = Inr h"
    using pos k(1) h1 h2 by (simp add: planet_house_def and_then_def)
  then show ?case
    unfolding a using Cons.IH by (auto simp: and_then_def)
qed

text \<open>
  C4. Whenever the date parses, the ephemeris answers, and it reports longitudes in
  \<open>[0, 360)\<close> for the ascendant and the bodies, \<open>calculate_chart\<close> returns a chart, and the
  house it assigns to Ketu is \<open>degree_to_house\<close> of \<open>(rahu_degree + 180) % 360\<close> and the
  ascendant, where \<open>rahu_degree\<close> is the mean node's longitude: Ketu has no ephemeris
  query of its own.
\<close>

theorem calculate_chart_ketu_from_rahu:
  assumes "parse date time = Some (year, month, day, hour, minute)"
    and "calculate_julian_day swe year month day hour minute timezone_offset = Inr jd"
    and "swe_houses swe jd latitude longitude = Inr (cusps, Finite asc # ascmc)"
    and "0 \<le> asc" and "asc < 360"
    and "\<forall>body. \<exists>l rest. swe_calc_ut swe jd body = Inr (Finite l # rest) \<and> 0 \<le> l \<and> l < 360"
    and "swe_calc_ut swe jd MEAN_NODE = Inr (Finite rahu # rest)"
  shows "\<exists>chart ketu house.
           calculate_chart parse swe date time latitude longitude timezone_offset = Inr chart \<and>
           float_rem (float_add (Finite rahu) (int_to_float 180)) 360 = Inr (Finite ketu) \<and>
           degree_to_house (Finite ketu) (Finite asc) = Inr house \<and>
           map_of chart ''Ketu'' = Some house"
proof -
  have rahu: "0 \<le> rahu" "rahu < 360" using assms(6,7) by (metis Inr_inject list.inject pyfloat.inject)+
  define pre where "pre = butlast calculator_PLANETS"
  have split: "calculator_PLANETS = pre @ [(''Ketu'', MEAN_NODE)]"
    by (simp add: pre_def calculator_PLANETS_def)
  obtain c where c: "chart_loop swe jd (Finite asc) pre [] = Inr c"
    using chart_loop_total [OF assms(6,4,5)] by blast
  have pos: "calculate_planet_position swe MEAN_NODE jd = Inr (Finite rahu)"
    using assms(7) by (rule planet_position_ok)
  obtain ketu where k: "float_rem (float_add (Finite rahu) (int_to_float 180)) 360 = Inr (Finite ketu)"
    "0 \<le> ketu" "ketu < 360"
    using ketu_degree_ok [OF rahu] by auto
  obtain house where h: "degree_to_house (Finite ketu) (Finite asc) = Inr house"
    using degree_to_house_range [of ketu asc] k assms(4,5) by auto
  have asc: "calculate_ascendant swe jd latitude longitude = Inr (Finite asc)"
    using assms(3) by (simp add: calculate_ascendant_def and_then_def first_item_def)
  have "chart_loop swe jd (Finite asc) calculator_PLANETS [] = Inr (AList.update ''Ketu'' house c)"
    unfolding split chart_loop_append using c pos k(1) h
    by (simp add: and_then_def planet_house_def)
  then have "calculate_chart parse swe date time latitude longitude timezone_offset
               = Inr (AList.update ''Ketu'' house c)"
    using assms(1,2) asc by (simp add: calculate_chart_def and_then_def)
  moreover have "map_of (AList.update ''Ketu'' house c) ''Ketu'' = Some house"
    by (simp add: update_conv')
  ultimately show ?thesis using k(1) h by blast
qed

text \<open>
  The example of the spec: Rahu at 200 and the ascendant at 50 give Ketu the longitude
  20, the distance 330 from the ascendant and house 12.
\<close>

theorem calculate_chart_ketu_from_rahu_witness:
  "example_strptime ''2004-01-16'' ''10:30'' = Some (2004, 1, 16, 10, 30) \<and>
   calculate_julian_day example_swe 2004 1 16 10 30 (Finite (11 / 2)) = Inr (Finite 2453021) \<and>
   swe_houses example_swe (Finite 2453021) (Finite 23) (Finite 72) = Inr ([], [Finite 50]) \<and>
   swe_calc_ut example_swe (Finite 2453021) MEAN_NODE = Inr [Finite 200] \<and>
   calculate_chart example_strptime example_swe ''2004-01-16'' ''10:30''
       (Finite 23) (Finite 72) (Finite (11 / 2)) =
     Inr [(''Sun'', 6), (''Moon'', 6), (''Mars'', 6), (''Mercury'', 6), (''Jupiter'', 6),
          (''Venus'', 6), (''Saturn'', 6), (''Rahu'', 6), (''Ketu'', 12)] \<and>
   float_rem (float_add (Finite 200) (int_to_float 180)) 360 = Inr (Finite 20) \<and>
   float_rem (float_sub (Finite 20) (Finite 50)) 360 = Inr (Finite 330) \<and>
   degree_to_house (Finite 20) (Finite 50) = Inr 12"
  using calculate_chart_ketu_from_rahu
    [of example_strptime "''2004-01-16''" "''10:30''" 2004 1 16 10 30 example_swe
        "Finite (11 / 2)" "Finite 2453021" "Finite 23" "Finite 72" "[]" 50 "[]" 200 "[]"]
  by (simp add: example_strptime_def example_swe_def calculate_chart_def
      calculate_julian_day_def calculate_ascendant_def calculate_planet_position_def
      calculator_PLANETS_def planet_house_def first_item_def
      degree_to_house_def and_then_def int_to_float_def to_float_def
      fmod_small fmod_once trunc_def)

section \<open>Properties of the metadata-filtered query\<close>

lemma append_matches_acc:
  "append_matches planet house ms acc =
     (fst (append_matches planet house ms []), acc @ snd (append_matches planet house ms []))"
proof (induction ms arbitrary: acc)
  case Nil
  then show ?case by simp
next
  case (Cons m ms)
  show ?case
  proof (cases "match_metadata m")
    case None
    then show ?thesis by simp
  next
    case (Some md)
    then show ?thesis
      using Cons.IH [of "acc @ [_]"] Cons.IH [of "[_]"]
      by simp
  qed
qed

lemma query_loop_acc:
  "query_loop idx top_k chart rs ws =
     (rs @ fst (query_loop idx top_k chart [] []), ws @ snd (query_loop idx top_k chart [] []))"
proof (induction chart arbitrary: rs ws)
  case Nil
  then show ?case by simp
next
  case (Cons a chart)
  obtain planet house where a: "a = (planet, house)" by (cases a)
  show ?case
  proof (cases "ix_query idx planet house top_k")
    case (Inl e)
    show ?thesis
      unfolding a using Inl Cons.IH [of rs "ws @ [(planet, house, e)]"]
        Cons.IH [of "[]" "[(planet, house, e)]"]
      by simp
  next
    case (Inr matches)
    obtain r res where am: "append_matches planet house matches [] = (r, res)"
      by (cases "append_matches planet house matches []")
    have am': "append_matches planet house matches rs = (r, rs @ res)"
      using append_matches_acc [of planet house matches rs] am by simp
    show ?thesis
    proof (cases r)
      case None
      show ?thesis
        unfolding a using Inr am am' None Cons.IH [of "rs @ res" ws] Cons.IH [of res "[]"]
        by simp
    next
      case (Some e)
      show ?thesis
        unfolding a using Inr am am' Some Cons.IH [of "rs @ res" "ws @ [(planet, house, e)]"]
          Cons.IH [of res "[(planet, house, e)]"]
        by simp
    qed
  qed
qed

lemma query_loop_append:
  "query_loop idx top_k (xs @ ys) rs ws =
     (case query_loop idx top_k xs rs ws of (rs1, ws1) \<Rightarrow> query_loop idx top_k ys rs1 ws1)"
proof (induction xs arbitrary: rs ws)
  case Nil
  then show ?case by simp
next
  case (Cons a xs)
  obtain planet house where a: "a = (planet, house)" by (cases a)
  show ?case
    unfolding a by (simp add: Cons.IH split: sum.splits prod.splits option.splits)
qed

lemma append_matches_rules:
  "snd (append_matches planet house ms acc) =
     acc @ map (\<lambda>m. \<lparr>rule_planet = planet, rule_house = house, rule_id = match_id m,
                      rule_score = match_score m,
                      rule_content = metadata_get (the (match_metadata m)) ''content'',
                      rule_heading = metadata_get (the (match_metadata m)) ''heading'',
                      rule_metadata = the (match_metadata m)\<rparr>)
             (takeWhile (\<lambda>m. match_metadata m \<noteq> None) ms)"
proof (induction ms arbitrary: acc)
  case Nil
  then show ?case by simp
next
  case (Cons m ms)
  show ?case
  proof (cases "match_metadata m")
    case None
    then show ?thesis by simp
  next
    case (Some md)
    then show ?thesis by (simp add: Cons.IH)
  qed
qed

lemma query_loop_results:
  "fst (query_loop idx top_k chart rs ws) = rs @ concat (map (pair_rules idx top_k) chart)"
proof (induction chart arbitrary: rs ws)
  case Nil
  then show ?case by simp
next
  case (Cons a chart)
  obtain planet house where a: "a = (planet, house)" by (cases a)
  show ?case
  proof (cases "ix_query idx planet house top_k")
    case (Inl e)
    then show ?thesis unfolding a by (simp add: Cons.IH pair_rules_def)
  next
    case (Inr matches)
    obtain r res where am: "append_matches planet house matches rs = (r, res)"
      by (cases "append_matches planet house matches rs")
    have res: "res = rs @ pair_rules idx top_k (planet, house)"
      using append_matches_rules [of planet house matches rs] am Inr
      by (simp add: pair_rules_def)
    show ?thesis
    proof (cases r)
      case None
      then show ?thesis unfolding a using Inr am by (simp add: Cons.IH res)
    next
      case (Some e)
      then show ?thesis unfolding a using Inr am by (simp add: Cons.IH res)
    qed
  qed
qed

text \<open>
  C1. With the client connected, if the lookup of one (planet, house) pair of the chart
  raises, \<open>query_by_chart\<close> still returns, and what it returns is the accumulated rules of
  every other pair, in chart order: the concatenation of \<open>pair_rules\<close> over the chart
  without the failed pair, which contributes nothing. The same list is returned for the
  chart without that pair, and the failed pair is among the warnings printed. The
  failure of a pair neither aborts the query nor reaches the caller.
\<close>

theorem query_by_chart_skips_failed_pair:
  assumes "index self = Some idx"
    and "ix_query idx planet house top_k = Inl e"
  shows "\<exists>results warnings0 warnings.
           results = concat (map (pair_rules idx top_k) (pre @ post)) \<and>
           pair_rules idx top_k (planet, house) = [] \<and>
           query_by_chart self (pre @ post) top_k = Inr (results, warnings0) \<and>
           query_by_chart self (pre @ (planet, house) # post) top_k = Inr (results, warnings) \<and>
           (planet, house, e) \<in> set warnings"
proof -
  obtain r1 w1 where pre: "query_loop idx top_k pre [] [] = (r1, w1)"
    by (cases "query_loop idx top_k pre [] []")
  obtain r2 w2 where post: "query_loop idx top_k post [] [] = (r2, w2)"
    by (cases "query_loop idx top_k post [] []")
  have a: "query_loop idx top_k post r1 w1 = (r1 @ r2, w1 @ w2)"
    using query_loop_acc [of idx top_k post r1 w1] post by simp
  have b: "query_loop idx top_k post r1 (w1 @ [(planet, house, e)])
             = (r1 @ r2, w1 @ [(planet, house, e)] @ w2)"
    using query_loop_acc [of idx top_k post r1 "w1 @ [(planet, house, e)]"] post by simp
  have without: "query_loop idx top_k (pre @ post) [] [] = (r1 @ r2, w1 @ w2)"
    by (simp add: query_loop_append pre a)
  have withp: "query_loop idx top_k (pre @ (planet, house) # post) [] []
                 = (r1 @ r2, w1 @ [(planet, house, e)] @ w2)"
    using assms(2) by (simp add: query_loop_append pre b)
  have "r1 @ r2 = concat (map (pair_rules idx top_k) (pre @ post))"
    using query_loop_results [of idx top_k "pre @ post" "[]" "[]"] without by simp
  moreover have "pair_rules idx top_k (planet, house) = []"
    using assms(2) by (simp add: pair_rules_def)
  ultimately show ?thesis
    using assms(1) without withp by (simp add: query_by_chart_def)
qed

theorem query_by_chart_skips_failed_pair_witness:
  "index \<lparr>index_name = ''lal-kitab-rules'', index = Some example_index\<rparr> = Some example_index \<and>
   ix_query example_index ''Sun'' 1 10 = Inl (ExternalError ''timeout'') \<and>
   query_by_chart \<lparr>index_name = ''lal-kitab-rules'', index = Some example_index\<rparr>
       ([] @ (''Sun'', 1) # [(''Moon'', 3), (''Mars'', 5)]) 10 =
     Inr ([\<lparr>rule_planet = ''Moon'', rule_house = 3, rule_id = ''moon_house_3'',
             rule_score = Finite 0, rule_content = MetaStr ''Moon in 3rd House B'',
             rule_heading = MetaStr ''Moon in 3rd House'',
             rule_metadata = [(''content'', MetaStr ''Moon in 3rd House B''),
                              (''heading'', MetaStr ''Moon in 3rd House'')]\<rparr>],
          [(''Sun'', 1, ExternalError ''timeout'')]) \<and>
   concat (map (pair_rules example_index 10) ([] @ [(''Moon'', 3), (''Mars'', 5)])) =
     [\<lparr>rule_planet = ''Moon'', rule_house = 3, rule_id = ''moon_house_3'',
       rule_score = Finite 0, rule_content = MetaStr ''Moon in 3rd House B'',
       rule_heading = MetaStr ''Moon in 3rd House'',
       rule_metadata = [(''content'', MetaStr ''Moon in 3rd House B''),
                        (''heading'', MetaStr ''Moon in 3rd House'')]\<rparr>] \<and>
   query_by_chart \<lparr>index_name = ''lal-kitab-rules'', index = Some example_index\<rparr>
       ([] @ [(''Moon'', 3), (''Mars'', 5)]) 10 =
     Inr ([\<lparr>rule_planet = ''Moon'', rule_house = 3, rule_id = ''moon_house_3'',
             rule_score = Finite 0, rule_content = MetaStr ''Moon in 3rd House B'',
             rule_heading = MetaStr ''Moon in 3rd House'',
             rule_metadata = [(''content'', MetaStr ''Moon in 3rd House B''),
                              (''heading'', MetaStr ''Moon in 3rd House'')]\<rparr>],
          [])"
  using query_by_chart_skips_failed_pair
    [of "\<lparr>index_name = ''lal-kitab-rules'', index = Some example_index\<rparr>" example_index
        "''Sun''" 1 10 "ExternalError ''timeout''" "[]" "[(''Moon'', 3), (''Mars'', 5)]"]
  by (simp add: query_by_chart_def example_index_def metadata_get_def pair_rules_def)

section \<open>Properties of the birth-data gate\<close>

lemma unresolved_place_raises:
  assumes "env_geocode env (bd_place data @ '', India'') = Inr None"
    and "env_geocode env (bd_place data) = Inr None"
  shows "generate_chart env data = Inl RuntimeError"
  using assms by (simp add: generate_chart_def calculate_chart_by_place_def get_coordinates_def)

text \<open>
  C9. While no birth data is stored, if the extraction is complete and the chart
  computation raises, \<open>process_user_message\<close> reports the failure and leaves the session as
  it found it: the stored birth data is empty again, no chart is set, and the next
  message is treated as a first one (it goes through the extraction again). An
  unresolvable place is such a failure (\<open>unresolved_place_raises\<close>).
\<close>

theorem chart_failure_resets_birth_data:
  assumes "ss_birth_data st = None"
    and "extract_birth_data_with_llm (env_llm_extract env) message = Complete data"
    and "generate_chart env data = Inl e"
  shows "process_user_message env st message = (ChartFailed e, st) \<and>
         ss_birth_data (snd (process_user_message env st message)) = None \<and>
         ss_chart (snd (process_user_message env st message)) = ss_chart st \<and>
         process_user_message env (snd (process_user_message env st message)) message
           = process_user_message env st message"
  using assms by (simp add: process_user_message_def Let_def)

theorem chart_failure_resets_birth_data_witness:
  "ss_birth_data \<lparr>ss_chart = None, ss_birth_data = None, ss_initial_summary_shown = False\<rparr> = None \<and>
   extract_birth_data_with_llm (env_llm_extract example_env) ''16 jan 2004 10.30 Atlantis'' =
     Complete \<lparr>bd_date = ''2004-01-16'', bd_time = ''10:30'', bd_place = ''Atlantis'',
               bd_timezone = Finite (11 / 2)\<rparr> \<and>
   generate_chart example_env
     \<lparr>bd_date = ''2004-01-16'', bd_time = ''10:30'', bd_place = ''Atlantis'',
      bd_timezone = Finite (11 / 2)\<rparr> = Inl RuntimeError \<and>
   process_user_message example_env
     \<lparr>ss_chart = None, ss_birth_data = None, ss_initial_summary_shown = False\<rparr>
     ''16 jan 2004 10.30 Atlantis'' =
     (ChartFailed RuntimeError,
      \<lparr>ss_chart = None, ss_birth_data = None, ss_initial_summary_shown = False\<rparr>)"
  using chart_failure_resets_birth_data
    [of "\<lparr>ss_chart = None, ss_birth_data = None, ss_initial_summary_shown = False\<rparr>"
        example_env "''16 jan 2004 10.30 Atlantis''"
        "\<lparr>bd_date = ''2004-01-16'', bd_time = ''10:30'', bd_place = ''Atlantis'',
          bd_timezone = Finite (11 / 2)\<rparr>" RuntimeError]
  by (simp add: example_env_def extract_birth_data_with_llm_def field_missing_def
      generate_chart_def calculate_chart_by_place_def get_coordinates_def)

section \<open>Properties of the heading matcher and the chunk extractor\<close>

lemma match_alternatives_splits:
  "match_alternatives ps s = Some (m, rest) \<Longrightarrow>
     s = m @ rest \<and> (\<exists>p \<in> set ps. map lower_char m = map lower_char p)"
proof (induction ps)
  case Nil
  then show ?case by simp
next
  case (Cons p ps)
  show ?case
  proof (cases "match_literal p s")
    case None
    with Cons show ?thesis by simp
  next
    case (Some r)
    with Cons.prems have "match_literal p s = Some (m, rest)" by simp
    from match_literal_splits [OF this] show ?thesis by simp
  qed
qed

lemma match_plus_splits:
  "match_plus cls s = Some (m, rest) \<Longrightarrow> s = m @ rest \<and> m \<noteq> [] \<and> (\<forall>c \<in> set m. cls c)"
  by (auto simp: match_plus_def split: if_splits dest: set_takeWhileD)

lemma match_ordinal_splits:
  "match_ordinal s = Some (m, rest) \<Longrightarrow> s = m @ rest"
proof (cases "match_plus is_digit s")
  case None
  assume "match_ordinal s = Some (m, rest)"
  with None have "match_literal ''I'' s = Some (m, rest)" by (simp add: match_ordinal_def)
  from match_literal_splits [OF this] show ?thesis by simp
next
  case (Some r)
  assume "match_ordinal s = Some (m, rest)"
  with Some have "match_plus is_digit s = Some (m, rest)" by (simp add: match_ordinal_def)
  from match_plus_splits [OF this] show ?thesis by simp
qed

lemma match_suffix_splits:
  "match_suffix s = (m, rest) \<Longrightarrow> s = m @ rest"
proof (cases "match_alternatives [''st'', ''nd'', ''rd'', ''th''] s")
  case None
  assume "match_suffix s = (m, rest)"
  with None show ?thesis by (simp add: match_suffix_def)
next
  case (Some r)
  assume "match_suffix s = (m, rest)"
  with Some have "match_alternatives [''st'', ''nd'', ''rd'', ''th''] s = Some (m, rest)"
    by (simp add: match_suffix_def)
  from match_alternatives_splits [OF this] show ?thesis by simp
qed

lemma lower_char_changes:
  "lower_char c \<noteq> c \<Longrightarrow> c \<in> set ''ABCDEFGHIJKLMNOPQRSTUVWXYZ''"
  unfolding lower_char_def
  by (cases "map_of (zip ''ABCDEFGHIJKLMNOPQRSTUVWXYZ'' ''abcdefghijklmnopqrstuvwxyz'') c")
    (simp, metis map_of_SomeD set_zip_leftD)

lemma space_not_upper:
  "is_space c \<Longrightarrow> c \<notin> set ''ABCDEFGHIJKLMNOPQRSTUVWXYZ''"
  by (simp add: is_space_def) (elim disjE; simp)

lemma lower_char_space: "is_space c \<Longrightarrow> lower_char c = c"
  using lower_char_changes space_not_upper by blast

lemma planet_initial:
  "p \<in> set parser_PLANETS \<Longrightarrow> p \<noteq> [] \<and> \<not> is_space (lower_char (hd p))"
  by (simp add: parser_PLANETS_def) (elim disjE; simp add: lower_char_def is_space_def)

lemma planet_initial_not_space:
  assumes "p \<in> set parser_PLANETS" and "map lower_char m = map lower_char p"
  shows "m \<noteq> [] \<and> \<not> is_space (hd m)"
proof -
  from planet_initial [OF assms(1)] have p: "p \<noteq> []" "\<not> is_space (lower_char (hd p))"
    by simp_all
  from assms(2) p(1) have m: "m \<noteq> []" by auto
  have "hd (map lower_char m) = hd (map lower_char p)" using assms(2) by simp
  then have eq: "lower_char (hd m) = lower_char (hd p)" using m p(1) by (simp add: hd_map)
  have "\<not> is_space (hd m)"
  proof
    assume sp: "is_space (hd m)"
    then have "lower_char (hd m) = hd m" by (rule lower_char_space)
    with eq sp p(2) show False by simp
  qed
  with m show ?thesis by simp
qed

lemma house_final_not_space:
  assumes "map lower_char m = map lower_char ''house''"
  shows "m \<noteq> [] \<and> \<not> is_space (last m)"
proof -
  from assms have m: "m \<noteq> []" by auto
  have "last (map lower_char m) = last (map lower_char ''house'')" using assms by simp
  then have "lower_char (last m) = lower_char (CHR ''e'')" using m by (simp add: last_map)
  then have e: "lower_char (last m) = CHR ''e''" by (simp add: lower_char_def)
  have "\<not> is_space (last m)"
  proof
    assume sp: "is_space (last m)"
    then have "lower_char (last m) = last m" by (rule lower_char_space)
    with e sp have "is_space (CHR ''e'')" by simp
    then show False by (simp add: is_space_def)
  qed
  with m show ?thesis by simp
qed

lemma planet_house_pattern_shape:
  assumes "planet_house_pattern s = Some (g0, g1, g2)"
  shows "(\<exists>rest. s = g0 @ rest) \<and> g0 \<noteq> [] \<and> \<not> is_space (hd g0) \<and> \<not> is_space (last g0)"
proof -
  from assms obtain s1 w1 s2 kw s3 w2 s4 s5 sfx s6 w3 s7 hs s8 where
    a: "match_alternatives parser_PLANETS s = Some (g1, s1)"
    and b: "match_plus is_space s1 = Some (w1, s2)"
    and c: "match_literal ''in'' s2 = Some (kw, s3)"
    and d: "match_plus is_space s3 = Some (w2, s4)"
    and e: "match_ordinal s4 = Some (g2, s5)"
    and f: "match_suffix s5 = (sfx, s6)"
    and g: "match_plus is_space s6 = Some (w3, s7)"
    and h: "match_literal ''house'' s7 = Some (hs, s8)"
    and g0: "g0 = g1 @ w1 @ kw @ w2 @ g2 @ sfx @ w3 @ hs"
    unfolding planet_house_pattern_def
    by (auto split: option.splits prod.splits)
  have s: "s = g0 @ s8"
    using match_alternatives_splits [OF a] match_plus_splits [OF b] match_literal_splits [OF c]
      match_plus_splits [OF d] match_ordinal_splits [OF e] match_suffix_splits [OF f]
      match_plus_splits [OF g] match_literal_splits [OF h]
    by (simp add: g0)
  obtain p where "p \<in> set parser_PLANETS" "map lower_char g1 = map lower_char p"
    using match_alternatives_splits [OF a] by auto
  then have g1: "g1 \<noteq> []" "\<not> is_space (hd g1)"
    using planet_initial_not_space by auto
  have hs: "hs \<noteq> []" "\<not> is_space (last hs)"
    using house_final_not_space match_literal_splits [OF h] by auto
  have "hd g0 = hd g1" using g1(1) by (simp add: g0)
  moreover have "last g0 = last hs" using hs(1) by (simp add: g0)
  ultimately show ?thesis using s g1 hs g0 by auto
qed


lemma finditer_props:
  "(\<forall>m \<in> set (finditer pos bol s).
      pos \<le> m_start m \<and> m_end m = m_start m + length (m_group0 m) \<and>
      planet_house_pattern (drop (m_start m - pos) s) = Some (m_group0 m, m_group1 m, m_group2 m)) \<and>
   sorted_wrt (\<lambda>a b. m_end a \<le> m_start b) (finditer pos bol s)"
proof (induction pos bol s rule: finditer.induct)
  case (1 pos bol s)
  show ?case
  proof (cases "s = []")
    case True
    then show ?thesis by (simp add: finditer.simps)
  next
    case False
    show ?thesis
    proof (cases "if bol then planet_house_pattern s else None")
      case None
      have eq: "finditer pos bol s = finditer (pos + 1) (hd s = newline) (tl s)"
        using False None by (subst finditer.simps) simp
      have d: "drop (k - (pos + 1)) (tl s) = drop (k - pos) s" if "pos + 1 \<le> k" for k
      proof -
        have "drop (k - (pos + 1)) (tl s) = drop (Suc (k - (pos + 1))) s"
          by (simp add: drop_Suc)
        also have "Suc (k - (pos + 1)) = k - pos" using that by simp
        finally show ?thesis .
      qed
      note ih = "1.IH"(1) [OF False None]
      show ?thesis
        unfolding eq
      proof (intro conjI ballI)
        fix m assume m: "m \<in> set (finditer (pos + 1) (hd s = newline) (tl s))"
        with ih have a: "pos + 1 \<le> m_start m" and b: "m_end m = m_start m + length (m_group0 m)"
          and c: "planet_house_pattern (drop (m_start m - (pos + 1)) (tl s))
                    = Some (m_group0 m, m_group1 m, m_group2 m)"
          by blast+
        show "pos \<le> m_start m" using a by simp
        show "m_end m = m_start m + length (m_group0 m)" by (rule b)
        show "planet_house_pattern (drop (m_start m - pos) s)
                = Some (m_group0 m, m_group1 m, m_group2 m)"
          using c d [OF a] by simp
      next
        show "sorted_wrt (\<lambda>a b. m_end a \<le> m_start b)
                (finditer (pos + 1) (hd s = newline) (tl s))"
          using ih by blast
      qed
    next
      case (Some g)
      obtain g0 g1 g2 where g: "g = (g0, g1, g2)" by (cases g)
      have pat: "planet_house_pattern s = Some (g0, g1, g2)"
        using Some g by (auto split: if_splits)
      define m0 where "m0 = \<lparr>m_start = pos, m_end = pos + length g0, m_group0 = g0,
                              m_group1 = g1, m_group2 = g2\<rparr>"
      define rest where "rest = finditer (pos + length g0) (last g0 = newline) (drop (length g0) s)"
      have eq: "finditer pos bol s = m0 # rest"
        using False Some g unfolding m0_def rest_def by (subst finditer.simps) simp
      note ih = "1.IH"(2) [OF False Some g [symmetric] refl, folded rest_def]
      have m0: "pos \<le> m_start m0" "m_end m0 = m_start m0 + length (m_group0 m0)"
        "planet_house_pattern (drop (m_start m0 - pos) s)
           = Some (m_group0 m0, m_group1 m0, m_group2 m0)"
        using pat by (simp_all add: m0_def)
      have r: "pos \<le> m_start m \<and> m_end m = m_start m + length (m_group0 m) \<and>
               planet_house_pattern (drop (m_start m - pos) s)
                 = Some (m_group0 m, m_group1 m, m_group2 m) \<and> m_end m0 \<le> m_start m"
        if "m \<in> set rest" for m
      proof -
        from ih that have a: "pos + length g0 \<le> m_start m"
          and b: "m_end m = m_start m + length (m_group0 m)"
          and c: "planet_house_pattern (drop (m_start m - (pos + length g0)) (drop (length g0) s))
                    = Some (m_group0 m, m_group1 m, m_group2 m)"
          by blast+
        have "m_start m - (pos + length g0) + length g0 = m_start m - pos" using a by simp
        then have "drop (m_start m - (pos + length g0)) (drop (length g0) s) = drop (m_start m - pos) s"
          by (simp only: drop_drop)
        with a b c show ?thesis by (simp add: m0_def)
      qed
      have "sorted_wrt (\<lambda>a b. m_end a \<le> m_start b) rest" using ih by blast
      then have "sorted_wrt (\<lambda>a b. m_end a \<le> m_start b) (m0 # rest)"
        using r by simp
      moreover have "\<forall>m \<in> set (m0 # rest).
          pos \<le> m_start m \<and> m_end m = m_start m + length (m_group0 m) \<and>
          planet_house_pattern (drop (m_start m - pos) s)
            = Some (m_group0 m, m_group1 m, m_group2 m)"
        using m0 r by auto
      ultimately show ?thesis unfolding eq by blast
    qed
  qed
qed

lemma finditer_in_text:
  assumes "m \<in> set (finditer 0 True text)"
  shows "\<exists>rest. drop (m_start m) text = m_group0 m @ rest"
    and "m_group0 m \<noteq> []"
    and "\<not> is_space (hd (m_group0 m))" and "\<not> is_space (last (m_group0 m))"
    and "m_end m = m_start m + length (m_group0 m)"
    and "m_end m \<le> length text"
proof -
  from finditer_props [of 0 True "text"] assms
  have e: "m_end m = m_start m + length (m_group0 m)"
    and p: "planet_house_pattern (drop (m_start m) text) = Some (m_group0 m, m_group1 m, m_group2 m)"
    by auto
  from planet_house_pattern_shape [OF p]
  show r: "\<exists>rest. drop (m_start m) text = m_group0 m @ rest"
    and ne: "m_group0 m \<noteq> []"
    and "\<not> is_space (hd (m_group0 m))" and "\<not> is_space (last (m_group0 m))"
    by auto
  show "m_end m = m_start m + length (m_group0 m)" by (rule e)
  from r obtain rest where d: "drop (m_start m) text = m_group0 m @ rest" by auto
  have "length (drop (m_start m) text) = length (m_group0 m) + length rest"
    by (simp add: d)
  then have l: "length text - m_start m = length (m_group0 m) + length rest" by simp
  have "0 < length (m_group0 m)" using ne by (cases "m_group0 m") simp_all
  with l have "m_start m + length (m_group0 m) \<le> length text" by arith
  with e show "m_end m \<le> length text" by simp
qed

lemma finditer_sorted:
  "sorted_wrt (\<lambda>a b. m_end a \<le> m_start b) (finditer 0 True text)"
  using finditer_props [of 0 True "text"] by simp

lemma headings_nth:
  assumes "i < length (find_all_planet_house_headings text)"
  shows "find_all_planet_house_headings text ! i = heading_of_match (finditer 0 True text ! i)"
    and "finditer 0 True text ! i \<in> set (finditer 0 True text)"
  using assms by (simp_all add: find_all_planet_house_headings_def)

lemma heading_fields:
  "h_start_pos (heading_of_match m) = m_start m"
  "h_end_pos (heading_of_match m) = m_end m"
  "h_match_text (heading_of_match m) = m_group0 m"
  by (simp_all add: heading_of_match_def)

lemma heading_end_le_next_start:
  assumes "i + 1 < length (find_all_planet_house_headings text)"
  shows "h_end_pos (find_all_planet_house_headings text ! i)
           \<le> h_start_pos (find_all_planet_house_headings text ! (i + 1))"
proof -
  let ?ms = "finditer 0 True text"
  have n: "i + 1 < length ?ms" using assms by (simp add: find_all_planet_house_headings_def)
  have "m_end (?ms ! i) \<le> m_start (?ms ! (i + 1))"
    using finditer_sorted [of "text"] n by (simp add: sorted_wrt_iff_nth_less)
  then show ?thesis
    using n by (simp add: find_all_planet_house_headings_def heading_fields)
qed

lemma heading_in_text:
  assumes "i < length (find_all_planet_house_headings text)"
  shows "h_end_pos (find_all_planet_house_headings text ! i)
           = h_start_pos (find_all_planet_house_headings text ! i)
             + length (h_match_text (find_all_planet_house_headings text ! i))"
    and "h_end_pos (find_all_planet_house_headings text ! i) \<le> length text"
    and "h_match_text (find_all_planet_house_headings text ! i) \<noteq> []"
    and "\<exists>rest. drop (h_start_pos (find_all_planet_house_headings text ! i)) text
           = h_match_text (find_all_planet_house_headings text ! i) @ rest"
    and "\<not> is_space (hd (h_match_text (find_all_planet_house_headings text ! i)))"
    and "\<not> is_space (last (h_match_text (find_all_planet_house_headings text ! i)))"
  using headings_nth [OF assms] finditer_in_text [of "finditer 0 True text ! i" "text"]
  by (simp_all add: heading_fields)

lemma chunk_span_eq:
  assumes "i < length headings"
  shows "chunk_span text headings i =
           (h_start_pos (headings ! i),
            if i + 1 < length headings then h_start_pos (headings ! (i + 1)) else length text)"
proof -
  have "(int i < int (length headings) - 1) = (i + 1 < length headings)" by auto
  then show ?thesis by (simp add: chunk_span_def)
qed

lemma chunk_span_bounds:
  assumes "i < length (find_all_planet_house_headings text)"
  shows "h_end_pos (find_all_planet_house_headings text ! i)
           \<le> snd (chunk_span text (find_all_planet_house_headings text) i)"
    and "snd (chunk_span text (find_all_planet_house_headings text) i) \<le> length text"
proof -
  let ?hs = "find_all_planet_house_headings text"
  show "h_end_pos (?hs ! i) \<le> snd (chunk_span text ?hs i)"
    using heading_end_le_next_start [of i "text"] heading_in_text(2) [OF assms]
    by (simp add: chunk_span_eq [OF assms])
  show "snd (chunk_span text ?hs i) \<le> length text"
  proof (cases "i + 1 < length ?hs")
    case True
    from heading_in_text(1,2) [OF True] have "h_start_pos (?hs ! (i + 1)) \<le> length text"
      by simp
    with True show ?thesis by (simp add: chunk_span_eq [OF assms])
  next
    case False
    then show ?thesis by (simp add: chunk_span_eq [OF assms])
  qed
qed

lemma extract_chunks_map:
  "extract_chunks text =
     map (make_chunk text (find_all_planet_house_headings text))
       [0..<length (find_all_planet_house_headings text)]"
  by (simp add: extract_chunks_def Let_def)

lemma make_chunk_fields:
  "c_planet (make_chunk text hs i) = h_planet (hs ! i)"
  "c_house (make_chunk text hs i) = h_house (hs ! i)"
  "c_heading (make_chunk text hs i) = h_match_text (hs ! i)"
  "c_content (make_chunk text hs i) =
     strip (slice text (fst (chunk_span text hs i)) (snd (chunk_span text hs i)))"
  "c_char_count (make_chunk text hs i) = length (c_content (make_chunk text hs i))"
  by (simp_all add: make_chunk_def Let_def split: prod.splits)

lemma slices_tile:
  assumes "st \<noteq> []" and "sorted_wrt (<) st" and "\<forall>x \<in> set st. x \<le> length text"
  shows "concat (map (\<lambda>(a, b). slice text a b) (zip st (tl st @ [length text])))
           = drop (hd st) text"
  using assms
proof (induction st rule: list_nonempty_induct)
  case (single a)
  then show ?case by (simp add: slice_def)
next
  case (cons a st)
  obtain b st' where st: "st = b # st'" using cons.hyps by (cases st) auto
  have ab: "a < b" using cons.prems(1) st by simp
  have ih: "concat (map (\<lambda>(a, b). slice text a b) (zip st (tl st @ [length text])))
              = drop b text"
    using cons.IH cons.prems st by simp
  have "slice text a b @ drop b text = take (b - a) (drop a text) @ drop (b - a) (drop a text)"
    using ab by (simp add: slice_def)
  also have "\<dots> = drop a text" by (rule append_take_drop_id)
  finally have "slice text a b @ drop b text = drop a text" .
  with ih show ?case by (simp add: st)
qed

lemma spans_zip:
  "map (chunk_span text hs) [0..<length hs]
     = zip (map h_start_pos hs) (tl (map h_start_pos hs) @ [length text])"
proof (rule nth_equalityI)
  show "length (map (chunk_span text hs) [0..<length hs])
          = length (zip (map h_start_pos hs) (tl (map h_start_pos hs) @ [length text]))"
    by (cases hs) simp_all
next
  fix i assume "i < length (map (chunk_span text hs) [0..<length hs])"
  then have i: "i < length hs" by simp
  have "(tl (map h_start_pos hs) @ [length text]) ! i
          = (if i + 1 < length hs then h_start_pos (hs ! (i + 1)) else length text)"
  proof (cases "i + 1 < length hs")
    case True
    then have "i < length (tl (map h_start_pos hs))" by simp
    then have "(tl (map h_start_pos hs) @ [length text]) ! i = tl (map h_start_pos hs) ! i"
      by (simp only: nth_append if_True)
    also have "\<dots> = map h_start_pos hs ! Suc i"
      using True by (simp add: nth_tl)
    finally show ?thesis using True by simp
  next
    case False
    with i have "i = length (tl (map h_start_pos hs))" by simp
    then have "(tl (map h_start_pos hs) @ [length text]) ! i = length text"
      by (simp only: nth_append_length)
    with False show ?thesis by simp
  qed
  then show "map (chunk_span text hs) [0..<length hs] ! i
               = zip (map h_start_pos hs) (tl (map h_start_pos hs) @ [length text]) ! i"
    using i by (simp add: chunk_span_eq)
qed

lemma heading_starts_increasing:
  "sorted_wrt (<) (map h_start_pos (find_all_planet_house_headings text))"
proof -
  let ?hs = "find_all_planet_house_headings text"
  have "h_start_pos (?hs ! i) < h_start_pos (?hs ! j)" if "i < j" "j < length ?hs" for i j
    using that
  proof (induction j)
    case 0
    then show ?case by simp
  next
    case (Suc j)
    have j: "j < length ?hs" using Suc.prems by simp
    have step: "h_start_pos (?hs ! j) < h_start_pos (?hs ! Suc j)"
    proof -
      have "h_start_pos (?hs ! j) < h_end_pos (?hs ! j)"
        using heading_in_text(1,3) [OF j] by (cases "h_match_text (?hs ! j)") simp_all
      also have "\<dots> \<le> h_start_pos (?hs ! (j + 1))"
        using Suc.prems by (intro heading_end_le_next_start) simp
      finally show ?thesis by simp
    qed
    show ?case
    proof (cases "i = j")
      case True
      with step show ?thesis by simp
    next
      case False
      with Suc.prems have "i < j" by simp
      from Suc.IH [OF this j] step show ?thesis by simp
    qed
  qed
  then show ?thesis by (simp add: sorted_wrt_iff_nth_less)
qed

lemma heading_start_before_span_end:
  assumes "i < length (find_all_planet_house_headings text)"
  shows "fst (chunk_span text (find_all_planet_house_headings text) i)
           < snd (chunk_span text (find_all_planet_house_headings text) i)"
proof -
  let ?hs = "find_all_planet_house_headings text"
  have "h_start_pos (?hs ! i) < h_end_pos (?hs ! i)"
    using heading_in_text(1,3) [OF assms] by (cases "h_match_text (?hs ! i)") simp_all
  also have "\<dots> \<le> snd (chunk_span text ?hs i)" using assms by (rule chunk_span_bounds)
  finally show ?thesis by (simp add: chunk_span_eq [OF assms])
qed

lemma strip_keeps_core:
  assumes "g \<noteq> []" and "\<not> is_space (hd g)" and "\<not> is_space (last g)"
  shows "\<exists>r'. strip (g @ r) = g @ r'"
proof -
  have a: "dropWhile is_space (g @ r) = g @ r"
    using assms(1,2) by (cases g) simp_all
  have b: "dropWhile is_space (rev g) = rev g"
    using assms(1,3) by (cases "rev g") (simp_all add: hd_rev [symmetric])
  have "\<exists>x. dropWhile is_space (rev r @ rev g) = x @ rev g"
  proof (cases "\<forall>c \<in> set (rev r). is_space c")
    case True
    then have "dropWhile is_space (rev r @ rev g) = dropWhile is_space (rev g)"
      by (simp add: dropWhile_append)
    with b show ?thesis by simp
  next
    case False
    then have "dropWhile is_space (rev r @ rev g) = dropWhile is_space (rev r) @ rev g"
      by (auto simp: dropWhile_append)
    then show ?thesis by blast
  qed
  then obtain x where "dropWhile is_space (rev r @ rev g) = x @ rev g" by blast
  then have "strip (g @ r) = g @ rev x" by (simp add: strip_def a)
  then show ?thesis by blast
qed

lemma chunk_slice_starts_with_heading:
  assumes "i < length (find_all_planet_house_headings text)"
  shows "\<exists>r. slice text (fst (chunk_span text (find_all_planet_house_headings text) i))
                (snd (chunk_span text (find_all_planet_house_headings text) i))
             = h_match_text (find_all_planet_house_headings text ! i) @ r"
proof -
  let ?hs = "find_all_planet_house_headings text"
  let ?g = "h_match_text (?hs ! i)"
  obtain rest where d: "drop (h_start_pos (?hs ! i)) text = ?g @ rest"
    using heading_in_text(4) [OF assms] by blast
  have "h_start_pos (?hs ! i) + length ?g \<le> snd (chunk_span text ?hs i)"
    using chunk_span_bounds(1) [OF assms] heading_in_text(1) [OF assms] by simp
  then have "length ?g \<le> snd (chunk_span text ?hs i) - h_start_pos (?hs ! i)" by simp
  then have "take (snd (chunk_span text ?hs i) - h_start_pos (?hs ! i)) (?g @ rest)
               = ?g @ take (snd (chunk_span text ?hs i) - h_start_pos (?hs ! i) - length ?g) rest"
    by simp
  then show ?thesis
    by (simp add: slice_def chunk_span_eq [OF assms] d)
qed

lemma chunk_content_starts_with_heading:
  assumes "i < length (find_all_planet_house_headings text)"
  shows "\<exists>r. c_content (extract_chunks text ! i)
               = h_match_text (find_all_planet_house_headings text ! i) @ r"
proof -
  let ?hs = "find_all_planet_house_headings text"
  obtain r where "slice text (fst (chunk_span text ?hs i)) (snd (chunk_span text ?hs i))
                    = h_match_text (?hs ! i) @ r"
    using chunk_slice_starts_with_heading [OF assms] by blast
  moreover have "\<exists>r'. strip (h_match_text (?hs ! i) @ r) = h_match_text (?hs ! i) @ r'"
    using heading_in_text(3,5,6) [OF assms] by (rule strip_keeps_core)
  ultimately show ?thesis
    using assms by (simp add: extract_chunks_map make_chunk_fields)
qed

lemmas parser_eval =
  find_all_planet_house_headings_def finditer.simps planet_house_pattern_def
  parser_PLANETS_def lower_char_def upper_char_def newline_def match_plus_def is_space_def
  is_digit_def match_ordinal_def match_suffix_def heading_of_match_def capitalize_def
  str_upper_def int_of_digits_def digit_value_def

lemmas chunker_eval =
  extract_chunks_def make_chunk_def chunk_span_def slice_def strip_def Let_def

text \<open>
  C3 (the code departs from it). The pattern anchors the planet name itself at the start
  of a line: a heading preceded by spaces or a tab on its line is not matched, and the
  parser's own self-test text, whose headings are indented, yields no occurrence at
  all. A heading at the very start of a line is matched; the same words in the middle
  of a line are not.
\<close>

theorem indented_heading_not_matched:
  "find_all_planet_house_headings ''    Sun in 1st House'' = [] \<and>
   find_all_planet_house_headings (CHR 0x09 # ''Sun in 1st House'') = [] \<and>
   find_all_planet_house_headings parser_test_text = [] \<and>
   find_all_planet_house_headings ''Sun in 1st House'' =
     [\<lparr>h_planet = ''Sun'', h_house = 1, h_start_pos = 0, h_end_pos = 16,
       h_match_text = ''Sun in 1st House''\<rparr>] \<and>
   find_all_planet_house_headings ''Notes: Sun in 1st House'' = []"
  by (simp add: parser_test_text_def parser_eval)

text \<open>
  C2. \<open>extract_chunks\<close> produces one chunk per heading occurrence, in order, carrying the
  occurrence's planet, house and heading. The content of the \<open>i\<close>-th chunk is the stripped
  slice of the document from the occurrence's start offset to the next occurrence's start
  offset, or to the end of the document for the last one. Every such span is non-empty
  and lies inside the document, each ends where the next begins, and together, in order,
  they make up the document from the first heading's start to its end: no gap and no
  overlap. With no heading the result is the empty list.
\<close>

theorem extract_chunks_spans:
  assumes "headings = find_all_planet_house_headings text"
  shows "length (extract_chunks text) = length headings \<and>
         (\<forall>i < length headings.
            c_planet (extract_chunks text ! i) = h_planet (headings ! i) \<and>
            c_house (extract_chunks text ! i) = h_house (headings ! i) \<and>
            c_heading (extract_chunks text ! i) = h_match_text (headings ! i) \<and>
            c_content (extract_chunks text ! i) =
              strip (slice text (fst (chunk_span text headings i))
                                (snd (chunk_span text headings i))) \<and>
            fst (chunk_span text headings i) = h_start_pos (headings ! i) \<and>
            snd (chunk_span text headings i) =
              (if i + 1 < length headings then h_start_pos (headings ! (i + 1))
               else length text) \<and>
            fst (chunk_span text headings i) < snd (chunk_span text headings i) \<and>
            snd (chunk_span text headings i) \<le> length text) \<and>
         (headings \<noteq> [] \<longrightarrow>
            concat (map (\<lambda>i. slice text (fst (chunk_span text headings i))
                                       (snd (chunk_span text headings i)))
                      [0..<length headings])
              = drop (h_start_pos (hd headings)) text) \<and>
         (headings = [] \<longrightarrow> extract_chunks text = [])"
proof (intro conjI allI impI)
  show "length (extract_chunks text) = length headings"
    by (simp add: extract_chunks_map assms)
next
  fix i assume i: "i < length headings"
  then have i': "i < length (find_all_planet_house_headings text)" by (simp add: assms)
  show "c_planet (extract_chunks text ! i) = h_planet (headings ! i)"
    and "c_house (extract_chunks text ! i) = h_house (headings ! i)"
    and "c_heading (extract_chunks text ! i) = h_match_text (headings ! i)"
    and "c_content (extract_chunks text ! i) =
           strip (slice text (fst (chunk_span text headings i))
                             (snd (chunk_span text headings i)))"
    using i' by (simp_all add: extract_chunks_map make_chunk_fields assms)
  show "fst (chunk_span text headings i) = h_start_pos (headings ! i)"
    and "snd (chunk_span text headings i) =
           (if i + 1 < length headings then h_start_pos (headings ! (i + 1))
            else length text)"
    by (simp_all add: chunk_span_eq [OF i])
  show "fst (chunk_span text headings i) < snd (chunk_span text headings i)"
    unfolding assms using i' by (rule heading_start_before_span_end)
  show "snd (chunk_span text headings i) \<le> length text"
    unfolding assms using i' by (rule chunk_span_bounds)
next
  assume ne: "headings \<noteq> []"
  let ?st = "map h_start_pos headings"
  have bound: "\<forall>x \<in> set ?st. x \<le> length text"
  proof
    fix x assume "x \<in> set ?st"
    then obtain i where i: "i < length headings" and x: "x = h_start_pos (headings ! i)"
      by (auto simp: in_set_conv_nth)
    from i have i': "i < length (find_all_planet_house_headings text)" by (simp add: assms)
    from heading_in_text(1,2) [OF i'] show "x \<le> length text" by (simp add: x assms)
  qed
  have "concat (map (\<lambda>i. slice text (fst (chunk_span text headings i))
                                  (snd (chunk_span text headings i)))
                 [0..<length headings])
          = concat (map (\<lambda>(a, b). slice text a b)
                      (map (chunk_span text headings) [0..<length headings]))"
    by (simp add: comp_def case_prod_beta)
  also have "\<dots> = concat (map (\<lambda>(a, b). slice text a b) (zip ?st (tl ?st @ [length text])))"
    by (simp only: spans_zip)
  also have "\<dots> = drop (hd ?st) text"
    using ne heading_starts_increasing [of "text"] bound
    by (intro slices_tile) (simp_all add: assms)
  also have "hd ?st = h_start_pos (hd headings)" using ne by (simp add: hd_map)
  finally show "concat (map (\<lambda>i. slice text (fst (chunk_span text headings i))
                                        (snd (chunk_span text headings i)))
                       [0..<length headings])
                  = drop (h_start_pos (hd headings)) text" .
next
  assume "headings = []"
  then show "extract_chunks text = []" by (simp add: extract_chunks_map assms)
qed

theorem extract_chunks_spans_witness:
  "find_all_planet_house_headings example_document =
     [\<lparr>h_planet = ''Sun'', h_house = 1, h_start_pos = 8, h_end_pos = 24,
       h_match_text = ''Sun in 1st House''\<rparr>,
      \<lparr>h_planet = ''Moon'', h_house = 3, h_start_pos = 29, h_end_pos = 46,
       h_match_text = ''Moon in 3rd House''\<rparr>] \<and>
   extract_chunks example_document =
     [\<lparr>c_planet = ''Sun'', c_house = 1, c_heading = ''Sun in 1st House'',
       c_content = ''Sun in 1st House'' @ [newline] @ ''A'', c_char_count = 18\<rparr>,
      \<lparr>c_planet = ''Moon'', c_house = 3, c_heading = ''Moon in 3rd House'',
       c_content = ''Moon in 3rd House'' @ [newline] @ ''B'', c_char_count = 19\<rparr>] \<and>
   slice example_document 8 29 @ slice example_document 29 48 = drop 8 example_document \<and>
   length example_document = 48 \<and>
   extract_chunks ''no heading here'' = []"
proof -
  have h: "find_all_planet_house_headings example_document =
     [\<lparr>h_planet = ''Sun'', h_house = 1, h_start_pos = 8, h_end_pos = 24,
       h_match_text = ''Sun in 1st House''\<rparr>,
      \<lparr>h_planet = ''Moon'', h_house = 3, h_start_pos = 29, h_end_pos = 46,
       h_match_text = ''Moon in 3rd House''\<rparr>]"
    by (simp add: example_document_def parser_eval)
  have c: "extract_chunks example_document =
     [\<lparr>c_planet = ''Sun'', c_house = 1, c_heading = ''Sun in 1st House'',
       c_content = ''Sun in 1st House'' @ [newline] @ ''A'', c_char_count = 18\<rparr>,
      \<lparr>c_planet = ''Moon'', c_house = 3, c_heading = ''Moon in 3rd House'',
       c_content = ''Moon in 3rd House'' @ [newline] @ ''B'', c_char_count = 19\<rparr>]"
    unfolding extract_chunks_def h
    by (simp add: example_document_def make_chunk_def chunk_span_def slice_def strip_def
        is_space_def newline_def upt_rec)
  have s: "slice example_document 8 29 @ slice example_document 29 48 = drop 8 example_document"
    by (simp add: example_document_def slice_def)
  have l: "length example_document = 48"
    by (simp add: example_document_def)
  have e: "extract_chunks ''no heading here'' = []"
    by (simp add: extract_chunks_def parser_eval)
  show ?thesis
    using extract_chunks_spans
      [of "find_all_planet_house_headings example_document" example_document] h c s l e
    by (intro conjI) assumption+
qed

text \<open>
  C8. For every chunk that \<open>extract_chunks\<close> produces, the content, after stripping,
  still begins with the chunk's own heading, so it is at least as long as the heading;
  and \<open>char_count\<close> is the length of the stripped content.
\<close>

theorem chunk_content_covers_heading:
  "\<forall>c \<in> set (extract_chunks text).
     length (c_heading c) \<le> length (c_content c) \<and>
     c_char_count c = length (c_content c) \<and>
     take (length (c_heading c)) (c_content c) = c_heading c"
proof
  fix c assume "c \<in> set (extract_chunks text)"
  then obtain i where i: "i < length (extract_chunks text)" and c: "c = extract_chunks text ! i"
    by (auto simp: in_set_conv_nth)
  from i have i': "i < length (find_all_planet_house_headings text)"
    by (simp add: extract_chunks_map)
  obtain r where r: "c_content c = h_match_text (find_all_planet_house_headings text ! i) @ r"
    using chunk_content_starts_with_heading [OF i'] c by blast
  have h: "c_heading c = h_match_text (find_all_planet_house_headings text ! i)"
    using i' by (simp add: c extract_chunks_map make_chunk_fields)
  have n: "c_char_count c = length (c_content c)"
    using i' by (simp add: c extract_chunks_map make_chunk_fields)
  show "length (c_heading c) \<le> length (c_content c) \<and>
        c_char_count c = length (c_content c) \<and>
        take (length (c_heading c)) (c_content c) = c_heading c"
    using r h n by simp
qed

theorem chunk_content_covers_heading_witness:
  "extract_chunks (''Sun in 1st House   '' @ [newline] @ ''Moon in 3rd House'' @ [newline] @ ''B  '') =
     [\<lparr>c_planet = ''Sun'', c_house = 1, c_heading = ''Sun in 1st House'',
       c_content = ''Sun in 1st House'', c_char_count = 16\<rparr>,
      \<lparr>c_planet = ''Moon'', c_house = 3, c_heading = ''Moon in 3rd House'',
       c_content = ''Moon in 3rd House'' @ [newline] @ ''B'', c_char_count = 19\<rparr>] \<and>
   length ''Sun in 1st House'' \<le> length ''Sun in 1st House'' \<and>
   length ''Moon in 3rd House'' \<le> length (''Moon in 3rd House'' @ [newline] @ ''B'')"
proof -
  define doc where
    "doc = ''Sun in 1st House   '' @ [newline] @ ''Moon in 3rd House'' @ [newline] @ ''B  ''"
  have h: "find_all_planet_house_headings doc =
     [\<lparr>h_planet = ''Sun'', h_house = 1, h_start_pos = 0, h_end_pos = 16,
       h_match_text = ''Sun in 1st House''\<rparr>,
      \<lparr>h_planet = ''Moon'', h_house = 3, h_start_pos = 20, h_end_pos = 37,
       h_match_text = ''Moon in 3rd House''\<rparr>]"
    by (simp add: doc_def parser_eval)
  have c: "extract_chunks doc =
     [\<lparr>c_planet = ''Sun'', c_house = 1, c_heading = ''Sun in 1st House'',
       c_content = ''Sun in 1st House'', c_char_count = 16\<rparr>,
      \<lparr>c_planet = ''Moon'', c_house = 3, c_heading = ''Moon in 3rd House'',
       c_content = ''Moon in 3rd House'' @ [newline] @ ''B'', c_char_count = 19\<rparr>]"
    unfolding extract_chunks_def h
    by (simp add: doc_def make_chunk_def chunk_span_def slice_def strip_def
        is_space_def newline_def upt_rec)
  have l: "length ''Sun in 1st House'' \<le> length ''Sun in 1st House''"
    "length ''Moon in 3rd House'' \<le> length (''Moon in 3rd House'' @ [newline] @ ''B'')"
    by simp_all
  show ?thesis
    using chunk_content_covers_heading [of doc] c l
    unfolding doc_def by (intro conjI) assumption+
qed

section \<open>Properties of the ingestion path\<close>

















end
